theory Spec2Isabelle
  imports Complex_Main "HOL-Library.Sublist" "HOL-Library.Multiset"
begin

section \<open>JavaScript values\<close>

text \<open>
  The query diversity engine (class \<open>QueryDiversityEngine\<close>) reads text from an injected
  HTTP client, parses it with \<open>JSON.parse\<close> and walks the result without checking its
  shape. The model therefore keeps the values dynamically typed.

  A JavaScript string is a sequence of UTF-16 code units and \<open>.length\<close> counts them; a code
  unit is a natural number here (below 65536 in every real string).
\<close>

type_synonym jstring = "nat list"

definition ascii :: "string \<Rightarrow> jstring" where
  "ascii s = map of_char s"

text \<open>
  A value made by \<open>JSON.parse\<close>. Arrays and objects carry the identity of the JavaScript
  object (a reference number), because \<open>Set\<close> compares objects by identity, so that equality
  of two \<open>json\<close> values is the comparison \<open>Set\<close> makes (SameValueZero). The fields of an
  object are listed in property enumeration order. \<open>undefined\<close> is \<open>None\<close> of
  \<open>json option\<close>.
\<close>

datatype json =
    JNull
  | JBool bool
  | JNum rat
  | JStr jstring
  | JArr nat "json list"
  | JObj nat "(jstring \<times> json) list"

datatype js_error =
    TransportError jstring
  | SyntaxError
  | TypeError

fun error_message :: "js_error \<Rightarrow> jstring" where
  "error_message (TransportError m) = m"
| "error_message SyntaxError = ascii ''SyntaxError''"
| "error_message TypeError = ascii ''TypeError''"

subsection \<open>Exceptions as values\<close>

fun bindE :: "'e + 'a \<Rightarrow> ('a \<Rightarrow> 'e + 'b) \<Rightarrow> 'e + 'b" where
  "bindE (Inl e) f = Inl e"
| "bindE (Inr x) f = f x"

text \<open>A callback run over an array; the first exception ends the run.\<close>

fun mapE :: "('a \<Rightarrow> 'e + 'b) \<Rightarrow> 'a list \<Rightarrow> 'e + 'b list" where
  "mapE f [] = Inr []"
| "mapE f (x # xs) =
     (case f x of
        Inl e \<Rightarrow> Inl e
      | Inr y \<Rightarrow> (case mapE f xs of Inl e \<Rightarrow> Inl e | Inr ys \<Rightarrow> Inr (y # ys)))"

definition flatMapE :: "('a \<Rightarrow> 'e + 'b list) \<Rightarrow> 'a list \<Rightarrow> 'e + 'b list" where
  "flatMapE f xs = bindE (mapE f xs) (\<lambda>yss. Inr (concat yss))"

subsection \<open>Operators on values\<close>

fun truthy :: "json \<Rightarrow> bool" where
  "truthy JNull = False"
| "truthy (JBool b) = b"
| "truthy (JNum x) = (x \<noteq> 0)"
| "truthy (JStr s) = (s \<noteq> [])"
| "truthy (JArr r xs) = True"
| "truthy (JObj r kvs) = True"

fun truthy_u :: "json option \<Rightarrow> bool" where
  "truthy_u None = False"
| "truthy_u (Some v) = truthy v"

text \<open>
  \<open>v.key\<close> for the keys this program reads other than \<open>length\<close>: none of them is a
  property of the prototypes of arrays, strings, numbers or booleans, so only an object
  has one. Reading a property of \<open>null\<close> or \<open>undefined\<close> throws a TypeError.
\<close>

fun own_property :: "json \<Rightarrow> jstring \<Rightarrow> json option" where
  "own_property (JObj r kvs) k = map_of kvs k"
| "own_property v k = None"

fun member :: "json option \<Rightarrow> string \<Rightarrow> js_error + json option" where
  "member None k = Inl TypeError"
| "member (Some JNull) k = Inl TypeError"
| "member (Some v) k = Inr (own_property v (ascii k))"

text \<open>\<open>v?.key\<close>: \<open>undefined\<close> when \<open>v\<close> is \<open>null\<close> or \<open>undefined\<close>.\<close>

fun opt_member :: "json option \<Rightarrow> string \<Rightarrow> json option" where
  "opt_member None k = None"
| "opt_member (Some JNull) k = None"
| "opt_member (Some v) k = own_property v (ascii k)"

text \<open>\<open>v.length\<close> of a value that is neither \<open>null\<close> nor \<open>undefined\<close>.\<close>

fun length_of :: "json \<Rightarrow> json option" where
  "length_of (JStr s) = Some (JNum (of_nat (length s)))"
| "length_of (JArr r xs) = Some (JNum (of_nat (length xs)))"
| "length_of (JObj r kvs) = map_of kvs (ascii ''length'')"
| "length_of v = None"

text \<open>
  \<open>a > n\<close> and \<open>a < n\<close> against a number: the operand is converted to a number, and
  the comparison is false when the conversion gives NaN (\<open>None\<close>). The conversion of
  strings, arrays and objects is the runtime's (\<open>to_num\<close>, a parameter).
\<close>

fun to_number :: "(json \<Rightarrow> rat option) \<Rightarrow> json option \<Rightarrow> rat option" where
  "to_number to_num None = None"
| "to_number to_num (Some JNull) = Some 0"
| "to_number to_num (Some (JBool b)) = Some (if b then 1 else 0)"
| "to_number to_num (Some (JNum x)) = Some x"
| "to_number to_num (Some v) = to_num v"

definition js_gt :: "(json \<Rightarrow> rat option) \<Rightarrow> json option \<Rightarrow> rat \<Rightarrow> bool" where
  "js_gt to_num a n = (case to_number to_num a of None \<Rightarrow> False | Some x \<Rightarrow> n < x)"

definition js_lt :: "(json \<Rightarrow> rat option) \<Rightarrow> json option \<Rightarrow> rat \<Rightarrow> bool" where
  "js_lt to_num a n = (case to_number to_num a of None \<Rightarrow> False | Some x \<Rightarrow> x < n)"

text \<open>
  \<open>for (const x of v)\<close>: an array gives its elements, a string its code points (a
  surrogate pair is one element), anything else is not iterable.
\<close>

fun code_points :: "jstring \<Rightarrow> jstring list" where
  "code_points [] = []"
| "code_points [c] = [[c]]"
| "code_points (c # d # cs) =
     (if 55296 \<le> c \<and> c < 56320 \<and> 56320 \<le> d \<and> d < 57344
      then [c, d] # code_points cs
      else [c] # code_points (d # cs))"

fun iterate :: "json \<Rightarrow> js_error + json list" where
  "iterate (JArr r xs) = Inr xs"
| "iterate (JStr s) = Inr (map JStr (code_points s))"
| "iterate v = Inl TypeError"

text \<open>\<open>for (const x of v || [])\<close>\<close>

definition iterate_or_empty :: "json option \<Rightarrow> js_error + json list" where
  "iterate_or_empty v = (if truthy_u v then iterate (the v) else Inr [])"

text \<open>
  \<open>(v || []).map(f)\<close>, \<open>.flatMap(f)\<close>: only an array has these methods; calling
  them on another value throws a TypeError.
\<close>

fun array_elements :: "json \<Rightarrow> js_error + json list" where
  "array_elements (JArr r xs) = Inr xs"
| "array_elements v = Inl TypeError"

definition elements_or_empty :: "json option \<Rightarrow> js_error + json list" where
  "elements_or_empty v = (if truthy_u v then array_elements (the v) else Inr [])"

text \<open>
  \<open>xs.slice(0, e)\<close>: the end is truncated towards zero; a negative end counts from the
  end of the array.
\<close>

definition trunc :: "rat \<Rightarrow> int" where
  "trunc x = (if 0 \<le> x then \<lfloor>x\<rfloor> else \<lceil>x\<rceil>)"

definition slice0 :: "'a list \<Rightarrow> rat \<Rightarrow> 'a list" where
  "slice0 xs e =
     (let k = trunc e
      in if k < 0 then take (nat (int (length xs) + k)) xs else take (nat k) xs)"

text \<open>\<open>s.replace(p, '')\<close> with a string pattern removes the first occurrence of \<open>p\<close>.\<close>

fun remove_first :: "jstring \<Rightarrow> jstring \<Rightarrow> jstring" where
  "remove_first p [] = []"
| "remove_first p (c # cs) =
     (if prefix p (c # cs) then drop (length p) (c # cs) else c # remove_first p cs)"

text \<open>
  \<open>Array.from(new Set(xs))\<close>: the elements are inserted in order, one already in the
  set is skipped, and the set lists them in insertion order.
\<close>

fun set_insertions :: "'a list \<Rightarrow> 'a list \<Rightarrow> 'a list" where
  "set_insertions seen [] = []"
| "set_insertions seen (x # xs) =
     (if x \<in> set seen then set_insertions seen xs
      else x # set_insertions (x # seen) xs)"

definition array_from_set :: "'a list \<Rightarrow> 'a list" where
  "array_from_set xs = set_insertions [] xs"

section \<open>The environment and the state of the engine\<close>

text \<open>
  What lies outside the engine is a parameter of every function: the injected HTTP client,
  the clock, the random source and the runtime's library functions. \<open>tick\<close> counts the
  effects performed so far, and the environment answers by tick, so that it may answer
  every call differently (a client that fails once and then succeeds, a clock that
  advances, a parser that allocates fresh objects).

  A JavaScript number is a double. The numbers of this program are rationals here, and the
  two operations of the program that round, \<open>a * b\<close> and \<open>a + b\<close>, are the runtime's
  (\<open>num_mul\<close>, \<open>num_add\<close>): the exact result rounded to a double. Comparisons,
  \<open>Math.max\<close>, \<open>Math.min\<close>, \<open>Math.floor\<close> and \<open>Math.ceil\<close> are exact.
\<close>

text \<open>A request as \<open>fetchHttp\<close> hands it to the client (\<open>http_method\<close> is its \<open>method\<close>).\<close>

record request =
  url :: jstring
  http_method :: jstring
  headers :: "(jstring \<times> jstring) list"
  data :: "jstring option"
  timeout :: rat

text \<open>The optional second argument of \<open>fetchHttp\<close>.\<close>

record http_options =
  method_opt :: "jstring option"
  headers_opt :: "(jstring \<times> jstring) list option"
  data_opt :: "jstring option"
  timeout_opt :: "rat option"

text \<open>
  The patterns of the two scrapers:
  \<^item> \<open>H3_heading\<close>: \<^verbatim>\<open>/<h3[^>]*>(.*?)<\/h3>/gi\<close>
  \<^item> \<open>Ellipsis_div\<close>: \<^verbatim>\<open>/<div[^>]*class="[^"]*c-single-text-ellipsis[^"]*"[^>]*>(.*?)<\/div>/gi\<close>
  \<^item> \<open>Title_link\<close>: \<^verbatim>\<open>/<a[^>]*class="[^"]*title[^"]*"[^>]*>(.*?)<\/a>/gi\<close>
\<close>

datatype pattern = H3_heading | Ellipsis_div | Title_link

record env =
  http_request :: "nat \<Rightarrow> request \<Rightarrow> js_error + json"
    \<comment> \<open>\<open>httpClient.request\<close>: it throws, or resolves to a response with this \<open>data\<close>\<close>
  Date_now :: "nat \<Rightarrow> int"
  Math_random :: "nat \<Rightarrow> rat"
  shuffle_picks :: "nat \<Rightarrow> nat list"
    \<comment> \<open>the random choices of one call of \<open>shuffleArray\<close>\<close>
  NEWS_API_KEY :: "jstring option"
  JSON_parse :: "nat \<Rightarrow> jstring \<Rightarrow> json option"
    \<comment> \<open>\<open>None\<close>: a SyntaxError\<close>
  JSON_stringify :: "json \<Rightarrow> jstring"
  to_num :: "json \<Rightarrow> rat option"
    \<comment> \<open>the conversion of a string, an array or an object to a number\<close>
  num_mul :: "rat \<Rightarrow> rat \<Rightarrow> rat"
    \<comment> \<open>\<open>a * b\<close> in doubles\<close>
  num_add :: "rat \<Rightarrow> rat \<Rightarrow> rat"
    \<comment> \<open>\<open>a + b\<close> in doubles\<close>
  exec_all :: "pattern \<Rightarrow> jstring \<Rightarrow> jstring list"
    \<comment> \<open>the first capture group of every match, in order\<close>
  remove_tags :: "jstring \<Rightarrow> jstring"
    \<comment> \<open>\<^verbatim>\<open>.replace(/<[^>]+>/g, '')\<close>\<close>
  trim :: "jstring \<Rightarrow> jstring"

datatype log_level = Info | Warn | Error

record log_entry =
  source :: jstring
  message :: jstring
  level :: log_level

record cache_entry =
  queries :: "json list"
  expires :: rat

text \<open>
  The state: the cache of the engine, and the trace of what it did to the outside
  (\<open>requests\<close>: the requests given to the HTTP client, oldest first; \<open>log_calls\<close>: the
  calls of the private method \<open>log\<close>, which forwards each to the logger when the caller
  gave one; the logger is taken to return normally).
\<close>

record state =
  cache :: "jstring \<rightharpoonup> cache_entry"
  tick :: nat
  requests :: "request list"
  log_calls :: "log_entry list"

record QueryDiversityConfig =
  sources :: "jstring list"
  deduplicate :: bool
  mixStrategies :: bool
  maxQueriesPerSource :: rat
  cacheMinutes :: rat

definition next_tick :: "state \<Rightarrow> state" where
  "next_tick s = s\<lparr>tick := Suc (tick s)\<rparr>"

definition log_msg :: "string \<Rightarrow> jstring \<Rightarrow> log_level \<Rightarrow> state \<Rightarrow> state" where
  "log_msg src msg lvl s =
     s\<lparr>log_calls := log_calls s @ [\<lparr>source = ascii src, message = msg, level = lvl\<rparr>]\<rparr>"

text \<open>Sequencing and \<open>try\<close>/\<open>catch\<close> for a computation that changes the state and may throw.\<close>

definition andThen ::
  "('e + 'a) \<times> 's \<Rightarrow> ('a \<Rightarrow> 's \<Rightarrow> ('e + 'b) \<times> 's) \<Rightarrow> ('e + 'b) \<times> 's" where
  "andThen m f = (case m of (Inl e, s) \<Rightarrow> (Inl e, s) | (Inr x, s) \<Rightarrow> f x s)"

definition try_catch ::
  "('e + 'a) \<times> 's \<Rightarrow> ('e \<Rightarrow> 's \<Rightarrow> ('e + 'a) \<times> 's) \<Rightarrow> ('e + 'a) \<times> 's" where
  "try_catch m h = (case m of (Inl e, s) \<Rightarrow> h e s | (Inr x, s) \<Rightarrow> (Inr x, s))"

definition parse :: "env \<Rightarrow> jstring \<Rightarrow> state \<Rightarrow> (js_error + json) \<times> state" where
  "parse E text s =
     ((case JSON_parse E (tick s) text of None \<Rightarrow> Inl SyntaxError | Some v \<Rightarrow> Inr v),
      next_tick s)"

definition random :: "env \<Rightarrow> state \<Rightarrow> rat \<times> state" where
  "random E s = (Math_random E (tick s), next_tick s)"

definition now :: "env \<Rightarrow> state \<Rightarrow> int \<times> state" where
  "now E s = (Date_now E (tick s), next_tick s)"

section \<open>Transport\<close>

definition default_headers :: "(jstring \<times> jstring) list" where
  "default_headers =
     [(ascii ''User-Agent'',
       ascii ''Mozilla/5.0 (Windows NT 10.0; Win64; x64) AppleWebKit/537.36'')]"

definition build_request :: "jstring \<Rightarrow> http_options option \<Rightarrow> request" where
  "build_request u config =
     \<lparr>url = u,
      http_method = (case Option.bind config method_opt of
                  Some m \<Rightarrow> if m \<noteq> [] then m else ascii ''GET''
                | None \<Rightarrow> ascii ''GET''),
      headers = (case Option.bind config headers_opt of
                   Some h \<Rightarrow> h
                 | None \<Rightarrow> default_headers),
      data = Option.bind config data_opt,
      timeout = (case Option.bind config timeout_opt of
                   Some t \<Rightarrow> if t \<noteq> 0 then t else 10000
                 | None \<Rightarrow> 10000)\<rparr>"

text \<open>
  \<open>fetchHttp\<close>: one request. A string body is returned as it is, any other body
  serialised. A failure is logged and thrown again; a client that resolves to something
  without a readable \<open>data\<close>, or whose body cannot be serialised, fails inside the same
  \<open>try\<close> and is an \<open>Inl\<close> of \<open>http_request\<close>. The body is a JSON value, as a real
  client delivers it; a response whose \<open>data\<close> is \<open>undefined\<close> is left out.
\<close>

definition fetchHttp ::
  "env \<Rightarrow> jstring \<Rightarrow> http_options option \<Rightarrow> state \<Rightarrow> (js_error + jstring) \<times> state" where
  "fetchHttp E u config s =
     (let req = build_request u config;
          s1 = (next_tick s)\<lparr>requests := requests s @ [req]\<rparr>
      in case http_request E (tick s) req of
           Inr (JStr text) \<Rightarrow> (Inr text, s1)
         | Inr body \<Rightarrow> (Inr (JSON_stringify E body), s1)
         | Inl error \<Rightarrow>
             (Inl error,
              log_msg ''QUERY-FETCH''
                (ascii ''HTTP request failed for '' @ u @ ascii '': '' @ error_message error)
                Error s1))"

section \<open>Source adapters\<close>

text \<open>
  \<open>if (t && P(t)) push(t)\<close> and \<open>.filter(t => t && P(t))\<close>, for a value that may
  be \<open>undefined\<close>.
\<close>

fun keep_if :: "(json \<Rightarrow> bool) \<Rightarrow> json option \<Rightarrow> json list" where
  "keep_if P None = []"
| "keep_if P (Some t) = (if truthy t \<and> P t then [t] else [])"

subsection \<open>Trends\<close>

text \<open>The prefix \<^verbatim>\<open>)]}',\<close> that the trends endpoint puts before its JSON.\<close>

definition hijack_prefix :: jstring where
  "hijack_prefix = [41, 93, 125, 39, 44]"

definition trendingQueries :: "json \<Rightarrow> js_error + json list" where
  "trendingQueries parsed =
     bindE (member (Some parsed) ''default'') (\<lambda>dflt.
     bindE (member dflt ''trendingSearchesDays'') (\<lambda>days.
     bindE (iterate_or_empty days) (flatMapE (\<lambda>item.
       bindE (member (Some item) ''trendingSearches'') (\<lambda>searches.
       bindE (iterate_or_empty searches) (flatMapE (\<lambda>search.
         bindE (member (Some search) ''title'') (\<lambda>title.
           Inr (keep_if (\<lambda>q. True) (opt_member title ''query''))))))))))"

text \<open>
  Every adapter is a \<open>try\<close> block with a \<open>catch\<close>; the block is a definition of its own
  (\<open>_try\<close>), so that "the fetch throws" can be said of it.
\<close>

definition fetchGoogleTrends_try :: "env \<Rightarrow> state \<Rightarrow> (js_error + json list) \<times> state" where
  "fetchGoogleTrends_try E s =
     andThen (fetchHttp E (ascii ''https://trends.google.com/trends/api/dailytrends?geo=US'')
                None s) (\<lambda>body s1.
     andThen (parse E (remove_first hijack_prefix body) s1) (\<lambda>parsed s2.
       (bindE (trendingQueries parsed) (\<lambda>found. Inr (take 20 found)), s2)))"

definition fetchGoogleTrends :: "env \<Rightarrow> state \<Rightarrow> (js_error + json list) \<times> state" where
  "fetchGoogleTrends E s = try_catch (fetchGoogleTrends_try E s) (\<lambda>error s'. (Inr [], s'))"

subsection \<open>Social feed\<close>

definition subreddits :: "jstring list" where
  "subreddits =
     map ascii [''news'', ''worldnews'', ''todayilearned'', ''askreddit'', ''technology'']"

text \<open>
  \<open>subreddits[Math.floor(x)]\<close> inside a template, for the product \<open>x\<close> of
  \<open>Math.random()\<close> and \<open>subreddits.length\<close>.
\<close>

definition randomSub :: "rat \<Rightarrow> jstring" where
  "randomSub x =
     (let i = \<lfloor>x\<rfloor>
      in if 0 \<le> i \<and> i < int (length subreddits) then subreddits ! nat i
         else ascii ''undefined'')"

definition title_ok :: "env \<Rightarrow> rat \<Rightarrow> rat \<Rightarrow> json \<Rightarrow> bool" where
  "title_ok E lo hi t =
     (js_gt (to_num E) (length_of t) lo \<and> js_lt (to_num E) (length_of t) hi)"

definition redditTitles :: "env \<Rightarrow> json \<Rightarrow> js_error + json list" where
  "redditTitles E parsed =
     bindE (member (Some parsed) ''data'') (\<lambda>d.
     bindE (iterate_or_empty (opt_member d ''children'')) (flatMapE (\<lambda>post.
       bindE (member (Some post) ''data'') (\<lambda>pd.
         Inr (keep_if (title_ok E 10 100) (opt_member pd ''title''))))))"

definition fetchReddit_try :: "env \<Rightarrow> state \<Rightarrow> (js_error + json list) \<times> state" where
  "fetchReddit_try E s =
     (case random E s of (r, s0) \<Rightarrow>
      andThen (fetchHttp E (ascii ''https://www.reddit.com/r/''
                              @ randomSub (num_mul E r (of_nat (length subreddits)))
                              @ ascii ''/hot.json?limit=15'') None s0) (\<lambda>body s1.
      andThen (parse E body s1) (\<lambda>parsed s2. (redditTitles E parsed, s2))))"

definition fetchReddit :: "env \<Rightarrow> state \<Rightarrow> (js_error + json list) \<times> state" where
  "fetchReddit E s = try_catch (fetchReddit_try E s) (\<lambda>error s'. (Inr [], s'))"

subsection \<open>News\<close>

text \<open>
  The scraper of the news homepage: the headings, without tags and trimmed, those of
  length strictly between 10 and 100, the first ten.
\<close>

definition heading_ok :: "nat \<Rightarrow> nat \<Rightarrow> jstring \<Rightarrow> bool" where
  "heading_ok lo hi t = (t \<noteq> [] \<and> lo < length t \<and> length t < hi)"

definition fetchNewsFallback_try :: "env \<Rightarrow> state \<Rightarrow> (js_error + json list) \<times> state" where
  "fetchNewsFallback_try E s =
     andThen (fetchHttp E (ascii ''https://www.bbc.com/news'') None s) (\<lambda>html s1.
       (Inr (map JStr (take 10 (filter (heading_ok 10 100)
               (map (\<lambda>m. trim E (remove_tags E m)) (exec_all E H3_heading html))))),
        s1))"

definition fetchNewsFallback :: "env \<Rightarrow> state \<Rightarrow> (js_error + json list) \<times> state" where
  "fetchNewsFallback E s = try_catch (fetchNewsFallback_try E s) (\<lambda>error s'. (Inr [], s'))"

text \<open>\<open>articles.map(a => a.title).filter(t => t && t.length > 10)\<close>\<close>

definition js_longer :: "env \<Rightarrow> rat \<Rightarrow> json \<Rightarrow> bool" where
  "js_longer E lo t = js_gt (to_num E) (length_of t) lo"

definition titlesOf :: "env \<Rightarrow> rat \<Rightarrow> json option \<Rightarrow> js_error + json list" where
  "titlesOf E lo v =
     bindE (elements_or_empty v) (\<lambda>elems.
     bindE (mapE (\<lambda>a. member (Some a) ''title'') elems) (\<lambda>titles.
       Inr (concat (map (keep_if (js_longer E lo)) titles))))"

text \<open>The request to the news API and the reading of its answer, for a key that is set.\<close>

definition fetchNews_try ::
  "env \<Rightarrow> jstring \<Rightarrow> state \<Rightarrow> (js_error + json list) \<times> state" where
  "fetchNews_try E apiKey s =
     andThen (fetchHttp E
         (ascii ''https://newsapi.org/v2/top-headlines?country=us&pageSize=15&apiKey=''
            @ apiKey) None s) (\<lambda>body s1.
     andThen (parse E body s1) (\<lambda>parsed s2.
       (bindE (member (Some parsed) ''articles'') (titlesOf E 10), s2)))"

definition fetchNews :: "env \<Rightarrow> state \<Rightarrow> (js_error + json list) \<times> state" where
  "fetchNews E s =
     (case NEWS_API_KEY E of
        None \<Rightarrow> fetchNewsFallback E s
      | Some apiKey \<Rightarrow>
          if apiKey = [] then fetchNewsFallback E s
          else try_catch (fetchNews_try E apiKey s) (\<lambda>error s'. fetchNewsFallback E s'))"

subsection \<open>Encyclopedia\<close>

definition fetchWikipedia_try :: "env \<Rightarrow> state \<Rightarrow> (js_error + json list) \<times> state" where
  "fetchWikipedia_try E s =
     andThen (fetchHttp E (ascii
        ''https://en.wikipedia.org/w/api.php?action=query&list=random&rnnamespace=0&rnlimit=15&format=json'')
        None s) (\<lambda>body s1.
     andThen (parse E body s1) (\<lambda>parsed s2.
       (bindE (member (Some parsed) ''query'') (\<lambda>q.
          titlesOf E 3 (opt_member q ''random'')), s2)))"

definition fetchWikipedia :: "env \<Rightarrow> state \<Rightarrow> (js_error + json list) \<times> state" where
  "fetchWikipedia E s = try_catch (fetchWikipedia_try E s) (\<lambda>error s'. (Inr [], s'))"

subsection \<open>Regional hot topics\<close>

text \<open>\<open>[entry.content, entry.items, entry.list, entry.data].filter(Array.isArray).flat()\<close>\<close>

fun array_items :: "json option \<Rightarrow> json list" where
  "array_items (Some (JArr r xs)) = xs"
| "array_items v = []"

definition container_keys :: "string list" where
  "container_keys = [''content'', ''items'', ''list'', ''data'']"

definition nestedArrays :: "json \<Rightarrow> js_error + json list" where
  "nestedArrays entry =
     bindE (mapE (member (Some entry)) container_keys) (\<lambda>vals.
       Inr (concat (map array_items vals)))"

lemma bindE_cong [fundef_cong]:
  "m = m' \<Longrightarrow> (\<And>x. m' = Inr x \<Longrightarrow> f x = g x) \<Longrightarrow> bindE m f = bindE m' g"
  by (cases m') auto

lemma mapE_cong [fundef_cong]:
  "xs = ys \<Longrightarrow> (\<And>x. x \<in> set ys \<Longrightarrow> f x = g x) \<Longrightarrow> mapE f xs = mapE g ys"
  by (induction ys arbitrary: xs) (auto split: sum.splits)

lemma flatMapE_cong [fundef_cong]:
  "xs = ys \<Longrightarrow> (\<And>x. x \<in> set ys \<Longrightarrow> f x = g x) \<Longrightarrow> flatMapE f xs = flatMapE g ys"
  unfolding flatMapE_def by (simp cong: mapE_cong)

lemma size_map_of:
  "map_of kvs k = Some v \<Longrightarrow> size v < Suc (size_list (size_prod (\<lambda>x. 0) size) kvs)"
  by (induction kvs) (auto split: if_splits)

lemma size_own_property: "own_property e k = Some v \<Longrightarrow> size v < size e"
  by (cases e) (auto dest: size_map_of)

lemma size_array_items: "x \<in> set (array_items v) \<Longrightarrow> v = Some a \<Longrightarrow> size x < size a"
  by (cases v rule: array_items.cases) (auto simp: less_Suc_eq_le size_list_estimation')

lemma member_Inr: "member (Some e) k = Inr v \<Longrightarrow> v = own_property e (ascii k)"
  by (cases e) auto

lemma mapE_member:
  "mapE (member (Some e)) ks = Inr vals \<Longrightarrow> vals = map (\<lambda>k. own_property e (ascii k)) ks"
  by (induction ks arbitrary: vals) (auto split: sum.splits dest: member_Inr)

lemma nestedArrays_smaller:
  assumes "nestedArrays entry = Inr nested" "x \<in> set nested"
  shows "size x < size entry"
proof -
  from assms(1) obtain vals where f: "mapE (member (Some entry)) container_keys = Inr vals"
    and n: "nested = concat (map array_items vals)"
    unfolding nestedArrays_def by (cases "mapE (member (Some entry)) container_keys") auto
  from mapE_member[OF f] n assms(2)
  obtain k where "x \<in> set (array_items (own_property entry (ascii k)))"
    by auto
  then obtain a where a: "own_property entry (ascii k) = Some a"
    and "x \<in> set (array_items (Some a))"
    by (cases "own_property entry (ascii k)") auto
  then have "size x < size a" by (auto dest: size_array_items)
  with size_own_property[OF a] show ?thesis by simp
qed

text \<open>
  \<open>unwrapCnNewsContainer\<close>: an entry that holds arrays under the container keys is
  replaced by the unwrapped entries of those arrays, at any depth. The recursion ends
  because a nested entry is a proper part of the entry.
\<close>

function unwrapCnNewsContainer :: "json \<Rightarrow> js_error + json list" where
  "unwrapCnNewsContainer entry =
     bindE (nestedArrays entry) (\<lambda>nested.
       if nested \<noteq> [] then flatMapE unwrapCnNewsContainer nested else Inr [entry])"
  by pat_completeness auto
termination
  apply (relation "measure size")
   apply simp
  apply (simp add: nestedArrays_smaller)
  done

definition candidates :: "string list" where
  "candidates =
     [''query'', ''word'', ''keyword'', ''title'', ''name'', ''raw_title'', ''display_name'',
      ''show'', ''topic'', ''hotWord'', ''hotWordShort'', ''desc'']"

text \<open>\<open>typeof v === 'string' && v.length > 2 && v.length < 100\<close>\<close>

fun short_string :: "json option \<Rightarrow> jstring option" where
  "short_string (Some (JStr t)) = (if 2 < length t \<and> length t < 100 then Some t else None)"
| "short_string v = None"

text \<open>\<open>v && typeof v === 'object'\<close>\<close>

fun is_object :: "json option \<Rightarrow> bool" where
  "is_object (Some (JArr r xs)) = True"
| "is_object (Some (JObj r kvs)) = True"
| "is_object v = False"

text \<open>A loop that returns at the first hit.\<close>

fun first_some :: "('a \<Rightarrow> 'b option) \<Rightarrow> 'a list \<Rightarrow> 'b option" where
  "first_some f [] = None"
| "first_some f (x # xs) = (case f x of Some y \<Rightarrow> Some y | None \<Rightarrow> first_some f xs)"

text \<open>One round of the loop over the candidate keys, for an item that is not \<open>null\<close>.\<close>

definition probe :: "json \<Rightarrow> string \<Rightarrow> jstring option" where
  "probe item key =
     (let v = own_property item (ascii key)
      in case short_string v of
           Some t \<Rightarrow> Some t
         | None \<Rightarrow>
             if is_object v
             then first_some (\<lambda>nestedKey. short_string (own_property (the v) (ascii nestedKey)))
                    candidates
             else None)"

fun object_values :: "json \<Rightarrow> json list" where
  "object_values (JObj r kvs) = map snd kvs"
| "object_values (JArr r xs) = xs"
| "object_values (JStr t) = map (\<lambda>c. JStr [c]) t"
| "object_values v = []"

definition plain_string :: "json \<Rightarrow> jstring option" where
  "plain_string v =
     (case short_string (Some v) of
        Some t \<Rightarrow> if prefix (ascii ''http'') t then None else Some t
      | None \<Rightarrow> None)"

text \<open>\<open>pickCnNewsTitle\<close>; \<open>item[key]\<close> throws when the item is \<open>null\<close>.\<close>

definition pickCnNewsTitle :: "json \<Rightarrow> js_error + jstring option" where
  "pickCnNewsTitle item =
     (if item = JNull then Inl TypeError
      else Inr (case first_some (probe item) candidates of
                  Some t \<Rightarrow> Some t
                | None \<Rightarrow> first_some plain_string (object_values item)))"

text \<open>\<open>a || b\<close>\<close>

definition or_else :: "json option \<Rightarrow> json option \<Rightarrow> json option" where
  "or_else a b = (if truthy_u a then a else b)"

fun decimal :: "nat \<Rightarrow> jstring" where
  "decimal n = (if n < 10 then [48 + n] else decimal (n div 10) @ [48 + n mod 10])"

definition cnItems :: "json list \<Rightarrow> js_error + json list" where
  "cnItems cards =
     flatMapE (\<lambda>card. bindE (nestedArrays card) (flatMapE unwrapCnNewsContainer)) cards"

text \<open>\<open>.filter(t => t && t.length > 2 && t.length < 100)\<close> on the picked titles.\<close>

fun keep_title :: "jstring option \<Rightarrow> json list" where
  "keep_title None = []"
| "keep_title (Some t) = (if heading_ok 2 100 t then [JStr t] else [])"

text \<open>
  The pure part of \<open>extractCnNewsFromJson\<close>: the cards, the combined items and the
  queries.
\<close>

definition cnExtract :: "json \<Rightarrow> js_error + (json list \<times> json list \<times> json list)" where
  "cnExtract parsed =
     (let d = opt_member (Some parsed) ''data'';
          cards = or_else (opt_member d ''cards'') (opt_member d ''cardList'');
          listFallback =
            or_else (or_else (opt_member d ''list'') (opt_member d ''items''))
              (opt_member (opt_member d ''currentBoard'') ''list'')
      in bindE (elements_or_empty cards) (\<lambda>cs.
         bindE (cnItems cs) (\<lambda>items.
         bindE (if items \<noteq> [] then Inr items else elements_or_empty listFallback)
           (\<lambda>combinedItems.
         bindE (mapE pickCnNewsTitle combinedItems) (\<lambda>titles.
           Inr (cs, combinedItems, concat (map keep_title titles)))))))"

definition extractCnNewsFromJson ::
  "env \<Rightarrow> jstring \<Rightarrow> state \<Rightarrow> (js_error + json list) \<times> state" where
  "extractCnNewsFromJson E text s =
     try_catch
       (andThen (parse E text s) (\<lambda>parsed s1.
          case cnExtract parsed of
            Inl error \<Rightarrow> (Inl error, s1)
          | Inr (cs, combinedItems, found) \<Rightarrow>
              (Inr found,
               if found = []
               then log_msg ''QUERY-DIVERSITY''
                      (ascii ''CN news returned no items (cards='' @ decimal (length cs)
                         @ ascii '', items='' @ decimal (length combinedItems) @ ascii '')'')
                      Warn s1
               else s1)))
       (\<lambda>error s'. (Inr [], s'))"

definition extractCnNewsFromHtml :: "env \<Rightarrow> jstring \<Rightarrow> json list" where
  "extractCnNewsFromHtml E html =
     map JStr (array_from_set (concat (map
       (\<lambda>p. filter (heading_ok 2 100) (map (\<lambda>m. trim E (remove_tags E m)) (exec_all E p html)))
       [Ellipsis_div, Title_link])))"

definition cn_json_options :: "http_options option" where
  "cn_json_options =
     Some \<lparr>method_opt = None,
           headers_opt = Some
             [(ascii ''User-Agent'',
               ascii ''Mozilla/5.0 (Windows NT 10.0; Win64; x64) AppleWebKit/537.36''),
              (ascii ''Referer'', ascii ''https://top.baidu.com/'')],
           data_opt = None,
           timeout_opt = Some 8000\<rparr>"

definition cn_html_options :: "http_options option" where
  "cn_html_options =
     Some \<lparr>method_opt = None,
           headers_opt = Some
             [(ascii ''User-Agent'',
               ascii ''Mozilla/5.0 (Windows NT 10.0; Win64; x64) AppleWebKit/537.36'')],
           data_opt = None,
           timeout_opt = Some 8000\<rparr>"

definition endpoints :: "jstring list" where
  "endpoints =
     [ascii ''https://top.baidu.com/api/board?platform=wise&tab=realtime'',
      ascii ''https://top.baidu.com/api/board?platform=pc&tab=realtime'']"

text \<open>The loop over the JSON endpoints; \<open>Some\<close> is its early return.\<close>

fun tryEndpoints ::
  "env \<Rightarrow> QueryDiversityConfig \<Rightarrow> jstring list \<Rightarrow> state
     \<Rightarrow> (js_error + json list option) \<times> state" where
  "tryEndpoints E cfg [] s = (Inr None, s)"
| "tryEndpoints E cfg (endpoint # rest) s =
     andThen (fetchHttp E endpoint cn_json_options s) (\<lambda>body s1.
     andThen (extractCnNewsFromJson E body s1) (\<lambda>found s2.
       if found \<noteq> [] then (Inr (Some (slice0 found (maxQueriesPerSource cfg))), s2)
       else tryEndpoints E cfg rest s2))"

definition fetchCnNews_try ::
  "env \<Rightarrow> QueryDiversityConfig \<Rightarrow> state \<Rightarrow> (js_error + json list) \<times> state" where
  "fetchCnNews_try E cfg s =
     andThen (tryEndpoints E cfg endpoints s) (\<lambda>early s1.
       case early of
         Some found \<Rightarrow> (Inr found, s1)
       | None \<Rightarrow>
           andThen (fetchHttp E (ascii ''https://top.baidu.com/board?tab=realtime'')
                      cn_html_options s1) (\<lambda>html s2.
             let htmlQueries = extractCnNewsFromHtml E html
             in (Inr (slice0 htmlQueries (maxQueriesPerSource cfg)),
                 if htmlQueries = []
                 then log_msg ''QUERY-DIVERSITY''
                        (ascii ''CN news returned no items from JSON or HTML sources'') Warn s2
                 else s2)))"

definition fetchCnNews ::
  "env \<Rightarrow> QueryDiversityConfig \<Rightarrow> state \<Rightarrow> (js_error + json list) \<times> state" where
  "fetchCnNews E cfg s =
     try_catch (fetchCnNews_try E cfg s)
       (\<lambda>error s'.
          (Inr [],
           log_msg ''QUERY-DIVERSITY'' (ascii ''CN news fetch failed: '' @ error_message error)
             Warn s'))"

subsection \<open>Local fallback\<close>

text \<open>
  Modelled from the spec: \<open>Util.shuffleArray\<close> (\<open>util/core/Utils\<close>, not among the
  sources at hand), "a uniform shuffle utility over a sequence". The result is a
  permutation of the argument, chosen by the random source: each pick takes one of the
  elements left. Every permutation is the result of some picks.
\<close>

function shuffleArray :: "nat list \<Rightarrow> 'a list \<Rightarrow> 'a list" where
  "shuffleArray picks [] = []"
| "shuffleArray [] (x # xs) = x # xs"
| "shuffleArray (p # picks) (x # xs) =
     (let i = p mod length (x # xs)
      in (x # xs) ! i # shuffleArray picks (take i (x # xs) @ drop (Suc i) (x # xs)))"
  by pat_completeness auto
termination
  by (relation "measure (\<lambda>(picks, xs). length xs)") auto

definition shuffle :: "env \<Rightarrow> json list \<Rightarrow> state \<Rightarrow> json list \<times> state" where
  "shuffle E xs s = (shuffleArray (shuffle_picks E (tick s)) xs, next_tick s)"

definition fallback :: "jstring list" where
  "fallback = map ascii
     [''weather forecast'', ''news today'', ''stock market'', ''sports scores'',
      ''movie reviews'', ''recipes'', ''travel destinations'', ''health tips'',
      ''technology news'', ''best restaurants near me'', ''how to cook pasta'',
      ''python tutorial'', ''world events'', ''climate change'', ''electric vehicles'',
      ''space exploration'', ''artificial intelligence'', ''cryptocurrency'',
      ''gaming news'', ''fashion trends'', ''fitness workout'', ''home improvement'',
      ''gardening tips'', ''pet care'', ''book recommendations'', ''music charts'',
      ''streaming shows'', ''historical events'', ''science discoveries'',
      ''education resources'']"

definition getLocalFallback :: "env \<Rightarrow> rat \<Rightarrow> state \<Rightarrow> json list \<times> state" where
  "getLocalFallback E cnt s =
     (case shuffle E (map JStr fallback) s of (shuffled, s1) \<Rightarrow> (slice0 shuffled cnt, s1))"

section \<open>The per-source cache\<close>

definition clearCache :: "state \<Rightarrow> state" where
  "clearCache s = s\<lparr>cache := Map.empty\<rparr>"

definition cleanExpiredCache :: "env \<Rightarrow> state \<Rightarrow> state" where
  "cleanExpiredCache E s =
     (case now E s of (t, s1) \<Rightarrow>
        s1\<lparr>cache := (\<lambda>key. case cache s1 key of
                             None \<Rightarrow> None
                           | Some v \<Rightarrow> if expires v \<le> of_int t then None else Some v)\<rparr>)"

text \<open>The \<open>switch\<close> of \<open>getFromSource\<close>.\<close>

definition fetchSource ::
  "env \<Rightarrow> QueryDiversityConfig \<Rightarrow> jstring \<Rightarrow> state \<Rightarrow> (js_error + json list) \<times> state" where
  "fetchSource E cfg src s =
     (if src = ascii ''google-trends'' then fetchGoogleTrends E s
      else if src = ascii ''reddit'' then fetchReddit E s
      else if src = ascii ''news'' then fetchNews E s
      else if src = ascii ''cn-news'' then fetchCnNews E cfg s
      else if src = ascii ''wikipedia'' then fetchWikipedia E s
      else if src = ascii ''local-fallback''
        then (case getLocalFallback E 20 s of (found, s1) \<Rightarrow> (Inr found, s1))
      else (Inr [], log_msg ''QUERY-DIVERSITY'' (ascii ''Unknown source: '' @ src) Warn s))"

text \<open>What \<open>getFromSource\<close> does when the cache has no fresh entry.\<close>

definition refresh ::
  "env \<Rightarrow> QueryDiversityConfig \<Rightarrow> jstring \<Rightarrow> state \<Rightarrow> (js_error + json list) \<times> state" where
  "refresh E cfg src s =
     andThen (fetchSource E cfg src s) (\<lambda>found s1.
       let s2 = (if found = []
                 then log_msg ''QUERY-DIVERSITY''
                        (ascii ''No queries returned for source: '' @ src) Warn s1
                 else s1)
       in if found \<noteq> []
          then (case now E s2 of (t, s3) \<Rightarrow>
                  (Inr found,
                   s3\<lparr>cache := (cache s3)(src \<mapsto>
                        \<lparr>queries = found,
                         expires = num_add E (of_int t)
                                     (num_mul E (cacheMinutes cfg) 60000)\<rparr>)\<rparr>))
          else (Inr found, s2))"

definition getFromSource ::
  "env \<Rightarrow> QueryDiversityConfig \<Rightarrow> jstring \<Rightarrow> state \<Rightarrow> (js_error + json list) \<times> state" where
  "getFromSource E cfg src s =
     (let s1 = cleanExpiredCache E s
      in case cache s1 src of
           None \<Rightarrow> refresh E cfg src s1
         | Some cached \<Rightarrow>
             (case now E s1 of (t, s2) \<Rightarrow>
                if of_int t < expires cached then (Inr (queries cached), s2)
                else refresh E cfg src s2))"

section \<open>The aggregator\<close>

text \<open>
  The loop of \<open>interleaveQueries\<close>: \<open>i\<close> runs over the queries, \<open>sourceIndex\<close> names the
  chunk from which queries are taken.
\<close>

function interleaveLoop ::
  "int \<Rightarrow> nat \<Rightarrow> json list \<Rightarrow> rat \<Rightarrow> nat \<Rightarrow> nat \<Rightarrow> json list \<Rightarrow> json list" where
  "interleaveLoop chunkSize sourceCount qs targetCount i sourceIndex result =
     (if i < length qs \<and> of_nat (length result) < targetCount
      then
        let currentChunkStart = int sourceIndex * chunkSize;
            currentChunkEnd = currentChunkStart + chunkSize;
            query = qs ! i
        in interleaveLoop chunkSize sourceCount qs targetCount (i + 1)
             (if int i = currentChunkEnd - 1 then (sourceIndex + 1) mod sourceCount
              else sourceIndex)
             (if truthy query \<and> currentChunkStart \<le> int i \<and> int i < currentChunkEnd
              then result @ [query] else result)
      else result)"
  by pat_completeness auto
termination
  by (relation "measure (\<lambda>(chunkSize, sourceCount, qs, targetCount, i, sourceIndex, result).
        length qs - i)") auto

definition interleaveQueries :: "QueryDiversityConfig \<Rightarrow> json list \<Rightarrow> rat \<Rightarrow> json list" where
  "interleaveQueries cfg qs targetCount =
     (let queriesPerSource = \<lceil>maxQueriesPerSource cfg\<rceil>;
          sourceCount = length (sources cfg)
      in if sourceCount = 0 \<or> qs = [] then slice0 qs targetCount
         else slice0 (interleaveLoop queriesPerSource sourceCount qs targetCount 0 0 [])
                targetCount)"

text \<open>The loop of \<open>fetchQueries\<close> over the configured sources.\<close>

fun collect ::
  "env \<Rightarrow> QueryDiversityConfig \<Rightarrow> jstring list \<Rightarrow> json list \<Rightarrow> state
     \<Rightarrow> (js_error + json list) \<times> state" where
  "collect E cfg [] allQueries s = (Inr allQueries, s)"
| "collect E cfg (sourceName # rest) allQueries s =
     andThen
       (try_catch
          (andThen (getFromSource E cfg sourceName s) (\<lambda>found s1.
             (Inr (allQueries @ slice0 found (maxQueriesPerSource cfg)), s1)))
          (\<lambda>error s'.
             (Inr allQueries,
              log_msg ''QUERY-DIVERSITY''
                (ascii ''Failed to fetch from '' @ sourceName @ ascii '': ''
                   @ error_message error) Warn s')))
       (collect E cfg rest)"

text \<open>The list handed to the final shuffle: deduplicated and interleaved as configured.\<close>

definition preShuffle :: "QueryDiversityConfig \<Rightarrow> rat \<Rightarrow> json list \<Rightarrow> json list" where
  "preShuffle cfg validCount allQueries =
     (let final = (if deduplicate cfg then array_from_set allQueries else allQueries)
      in if mixStrategies cfg \<and> 1 < length (sources cfg)
         then interleaveQueries cfg final validCount
         else final)"

definition fetchQueries ::
  "env \<Rightarrow> QueryDiversityConfig \<Rightarrow> rat \<Rightarrow> state \<Rightarrow> (js_error + json list) \<times> state" where
  "fetchQueries E cfg cnt s =
     (let validCount = max 1 (min cnt 200)
      in andThen (collect E cfg (sources cfg) [] s) (\<lambda>allQueries s1.
           case shuffle E (preShuffle cfg validCount allQueries) s1 of
             (shuffled, s2) \<Rightarrow>
               let final = slice0 shuffled validCount
               in if final = []
                  then (case getLocalFallback E validCount
                               (log_msg ''QUERY-DIVERSITY''
                                  (ascii ''All sources failed, using local fallback'') Warn s2)
                        of (found, s3) \<Rightarrow> (Inr found, s3))
                  else (Inr final, s2)))"

subsection \<open>Construction\<close>

text \<open>The argument of the constructor: any field may be missing, and so may the whole.\<close>

record partial_config =
  sources_arg :: "jstring list option"
  deduplicate_arg :: "bool option"
  mixStrategies_arg :: "bool option"
  maxQueriesPerSource_arg :: "rat option"
  cacheMinutes_arg :: "rat option"

text \<open>\<open>config?.field || d\<close> for a number: \<open>0\<close> is falsy.\<close>

fun number_or :: "rat option \<Rightarrow> rat \<Rightarrow> rat" where
  "number_or None d = d"
| "number_or (Some x) d = (if x \<noteq> 0 then x else d)"

definition constructor :: "partial_config option \<Rightarrow> QueryDiversityConfig" where
  "constructor config =
     \<lparr>sources = (case Option.bind config sources_arg of
                   Some srcs \<Rightarrow>
                     if 0 < length srcs then srcs
                     else map ascii [''google-trends'', ''reddit'', ''local-fallback'']
                 | None \<Rightarrow> map ascii [''google-trends'', ''reddit'', ''local-fallback'']),
      deduplicate = (Option.bind config deduplicate_arg \<noteq> Some False),
      mixStrategies = (Option.bind config mixStrategies_arg \<noteq> Some False),
      maxQueriesPerSource =
        max 1 (min (number_or (Option.bind config maxQueriesPerSource_arg) 10) 50),
      cacheMinutes =
        max 1 (min (number_or (Option.bind config cacheMinutes_arg) 30) 1440)\<rparr>"

text \<open>A new engine has an empty cache.\<close>

definition new_state :: state where
  "new_state = \<lparr>cache = Map.empty, tick = 0, requests = [], log_calls = []\<rparr>"

section \<open>Properties of the engine\<close>

subsection \<open>Predicates used in the statements\<close>

text \<open>
  What a step may do to the state without touching the cache: it issues requests, lets
  the effect counter advance and calls the logger.
\<close>

definition outside :: "state \<Rightarrow> state \<Rightarrow> bool" where
  "outside s s' \<longleftrightarrow>
     cache s' = cache s \<and> prefix (requests s) (requests s') \<and> tick s \<le> tick s'
     \<and> prefix (log_calls s) (log_calls s')"

text \<open>
  \<open>returns Q m\<close>: the computation does not throw and its value satisfies \<open>Q\<close>;
  \<open>may_return Q m\<close>: its value satisfies \<open>Q\<close> if it does not throw.
\<close>

definition may_return :: "('a \<Rightarrow> bool) \<Rightarrow> ('e + 'a) \<times> 's \<Rightarrow> bool" where
  "may_return Q m \<longleftrightarrow> (\<forall>x. fst m = Inr x \<longrightarrow> Q x)"

definition returns :: "('a \<Rightarrow> bool) \<Rightarrow> ('e + 'a) \<times> 's \<Rightarrow> bool" where
  "returns Q m \<longleftrightarrow> (\<exists>x. fst m = Inr x \<and> Q x)"

definition all_truthy :: "json list \<Rightarrow> bool" where
  "all_truthy qs \<longleftrightarrow> (\<forall>q\<in>set qs. truthy q)"

definition all_strings :: "json list \<Rightarrow> bool" where
  "all_strings qs \<longleftrightarrow> (\<forall>q\<in>set qs. \<exists>t. q = JStr t \<and> t \<noteq> [])"

definition cn_titles :: "json list \<Rightarrow> bool" where
  "cn_titles qs \<longleftrightarrow> (\<forall>q\<in>set qs. \<exists>t. q = JStr t \<and> 2 < length t \<and> length t < 100)"

definition known_sources :: "jstring list" where
  "known_sources = map ascii
     [''google-trends'', ''reddit'', ''news'', ''cn-news'', ''wikipedia'', ''local-fallback'']"

text \<open>
  The invariant of the cache: an entry belongs to a source that \<open>getFromSource\<close>
  knows, and holds a non-empty list of truthy values. It holds for a new engine and
  every operation keeps it.
\<close>

definition cache_ok :: "state \<Rightarrow> bool" where
  "cache_ok s \<longleftrightarrow>
     (\<forall>k e. cache s k = Some e \<longrightarrow>
        k \<in> set known_sources \<and> queries e \<noteq> [] \<and> all_truthy (queries e))"

subsection \<open>Environments and configurations for the examples\<close>

text \<open>
  An environment in which every request fails. Its arithmetic is exact, as that of doubles
  is on the integers of the examples.
\<close>

definition offline :: env where
  "offline =
     \<lparr>http_request = (\<lambda>t r. Inl (TransportError (ascii ''connect ECONNREFUSED''))),
      Date_now = (\<lambda>t. int t),
      Math_random = (\<lambda>t. 0),
      shuffle_picks = (\<lambda>t. []),
      NEWS_API_KEY = None,
      JSON_parse = (\<lambda>t text. None),
      JSON_stringify = (\<lambda>v. []),
      to_num = (\<lambda>v. None),
      num_mul = (\<lambda>a b. a * b),
      num_add = (\<lambda>a b. a + b),
      exec_all = (\<lambda>p html. []),
      remove_tags = (\<lambda>t. t),
      trim = (\<lambda>t. t)\<rparr>"

text \<open>
  A trends response whose one trending search has the number 5 where the query text
  is expected:
  \<^verbatim>\<open>{"default":{"trendingSearchesDays":[{"trendingSearches":[{"title":{"query":5}}]}]}}\<close>
\<close>

definition numeric_trend :: json where
  "numeric_trend =
     JObj 1 [(ascii ''default'',
       JObj 2 [(ascii ''trendingSearchesDays'',
         JArr 3 [JObj 4 [(ascii ''trendingSearches'',
           JArr 5 [JObj 6 [(ascii ''title'', JObj 7 [(ascii ''query'', JNum 5)])]])]])])]"

text \<open>
  An environment that serves texts: \<open>pages\<close> gives the body of each address (any other
  request fails), \<open>meanings\<close> what \<open>JSON.parse\<close> makes of a text (any other text is a
  SyntaxError).
\<close>

definition serving :: "(jstring \<times> jstring) list \<Rightarrow> (jstring \<times> json) list \<Rightarrow> env" where
  "serving pages meanings = offline
     \<lparr>http_request := (\<lambda>t r. case map_of pages (url r) of
                                Some body \<Rightarrow> Inr (JStr body)
                              | None \<Rightarrow> Inl (TransportError (ascii ''connect ECONNREFUSED''))),
      JSON_parse := (\<lambda>t body. map_of meanings body)\<rparr>"

text \<open>The trends endpoint answers with its prefix and the text of \<open>numeric_trend\<close>.\<close>

definition trends_env :: env where
  "trends_env = serving
     [(ascii ''https://trends.google.com/trends/api/dailytrends?geo=US'',
       hijack_prefix @ ascii ''numeric_trend'')]
     [(ascii ''numeric_trend'', numeric_trend)]"

text \<open>The configuration built for one source, everything else left to its default.\<close>

definition only :: "string \<Rightarrow> QueryDiversityConfig" where
  "only src = constructor (Some
     \<lparr>sources_arg = Some [ascii src], deduplicate_arg = None, mixStrategies_arg = None,
      maxQueriesPerSource_arg = None, cacheMinutes_arg = None\<rparr>)"

text \<open>"Clamped to \<open>[lo, hi]\<close>", in the words of the specification.\<close>

definition clamp :: "rat \<Rightarrow> rat \<Rightarrow> rat \<Rightarrow> rat" where
  "clamp lo hi x = max lo (min x hi)"

definition builtin_sources :: "jstring list" where
  "builtin_sources = map ascii [''google-trends'', ''reddit'', ''local-fallback'']"

definition zero_args :: partial_config where
  "zero_args =
     \<lparr>sources_arg = None, deduplicate_arg = None, mixStrategies_arg = None,
      maxQueriesPerSource_arg = Some 0, cacheMinutes_arg = Some 0\<rparr>"

definition wide_args :: partial_config where
  "wide_args =
     \<lparr>sources_arg = Some [], deduplicate_arg = Some False, mixStrategies_arg = None,
      maxQueriesPerSource_arg = Some 500, cacheMinutes_arg = Some (- 3)\<rparr>"

text \<open>
  "The first-occurrence-unique subsequence", in the words of the specification: the
  elements at the positions where a value occurs for the first time, in order.
\<close>

definition first_occurrences :: "'a list \<Rightarrow> 'a list" where
  "first_occurrences xs =
     map (\<lambda>i. xs ! i) (filter (\<lambda>i. xs ! i \<notin> set (take i xs)) [0..<length xs])"

definition dup_queries :: "json list" where
  "dup_queries = [JStr (ascii ''b''), JStr (ascii ''a''), JStr (ascii ''b''), JStr (ascii ''c''),
                  JStr (ascii ''a'')]"

text \<open>
  The payload of the regional scenario, with the title \<open>t\<close>:
  \<^verbatim>\<open>{"data":{"cards":[{"content":[{"items":[{"title":t}]}]}]}}\<close>
\<close>

definition nested_payload :: "jstring \<Rightarrow> json" where
  "nested_payload t =
     JObj 1 [(ascii ''data'',
       JObj 2 [(ascii ''cards'',
         JArr 3 [JObj 4 [(ascii ''content'',
           JArr 5 [JObj 6 [(ascii ''items'',
             JArr 7 [JObj 8 [(ascii ''title'', JStr t)]])]])]])])]"

definition cn_env :: "jstring \<Rightarrow> env" where
  "cn_env t = serving [] [(ascii ''nested'', nested_payload t)]"

text \<open>
  The scenario of the local fallback: \<^verbatim>\<open>{sources:['local-fallback'], deduplicate:true,
  cacheMinutes:30}\<close>.
\<close>

definition fallback_only_args :: partial_config where
  "fallback_only_args =
     \<lparr>sources_arg = Some [ascii ''local-fallback''], deduplicate_arg = Some True,
      mixStrategies_arg = None, maxQueriesPerSource_arg = None, cacheMinutes_arg = Some 30\<rparr>"

text \<open>The sources whose adapters go through the HTTP client.\<close>

definition remote_sources :: "jstring list" where
  "remote_sources = map ascii [''google-trends'', ''reddit'', ''news'', ''cn-news'', ''wikipedia'']"

text \<open>
  A regional environment: the first JSON endpoint answers \<^verbatim>\<open>{}\<close>, which has no
  items, the second one the nested payload with a title of three code units.
\<close>

definition late_answer_env :: env where
  "late_answer_env = serving
     [(ascii ''https://top.baidu.com/api/board?platform=wise&tab=realtime'', ascii ''{}''),
      (ascii ''https://top.baidu.com/api/board?platform=pc&tab=realtime'', ascii ''nested'')]
     [(ascii ''{}'', JObj 0 []),
      (ascii ''nested'', nested_payload [31034, 20363, 35789])]"

text \<open>A state whose cache holds one entry, for the trends source, expiring at \<open>x\<close>.\<close>

definition cached_state :: "rat \<Rightarrow> state" where
  "cached_state x = new_state
     \<lparr>cache := [ascii ''google-trends'' \<mapsto>
                  \<lparr>queries = [JStr (ascii ''solar eclipse'')], expires = x\<rparr>]\<rparr>"

subsection \<open>A fetch that throws, and what each source contributes\<close>

text \<open>\<open>throws m\<close>: the computation ends with an exception.\<close>

definition throws :: "('e + 'a) \<times> 's \<Rightarrow> bool" where
  "throws m \<longleftrightarrow> isl (fst m)"

text \<open>
  The fetch of a source throws in the state \<open>s\<close>: the \<open>try\<close> block of its adapter ends
  with an exception there (a request that fails, a body that \<open>JSON.parse\<close> rejects, a
  TypeError while the answer is read). The news adapter answers an exception of its first
  block with the scraper, so that its fetch throws when both blocks do.
\<close>

definition fetch_throws :: "env \<Rightarrow> QueryDiversityConfig \<Rightarrow> jstring \<Rightarrow> state \<Rightarrow> bool" where
  "fetch_throws E cfg src s \<longleftrightarrow>
     (src = ascii ''google-trends'' \<and> throws (fetchGoogleTrends_try E s))
     \<or> (src = ascii ''reddit'' \<and> throws (fetchReddit_try E s))
     \<or> (src = ascii ''wikipedia'' \<and> throws (fetchWikipedia_try E s))
     \<or> (src = ascii ''cn-news'' \<and> throws (fetchCnNews_try E cfg s))
     \<or> (src = ascii ''news'' \<and>
          (case NEWS_API_KEY E of
             None \<Rightarrow> throws (fetchNewsFallback_try E s)
           | Some apiKey \<Rightarrow>
               if apiKey = [] then throws (fetchNewsFallback_try E s)
               else throws (fetchNews_try E apiKey s)
                    \<and> throws (fetchNewsFallback_try E (snd (fetchNews_try E apiKey s)))))"

text \<open>
  What the configured sources contribute, in the words of the specification: the sources
  are looked up in the configured order, the result of each lookup is cut to
  \<open>maxQueriesPerSource\<close>, and a lookup that throws is logged and counts as empty.
\<close>

fun contributions ::
  "env \<Rightarrow> QueryDiversityConfig \<Rightarrow> jstring list \<Rightarrow> state \<Rightarrow> json list list \<times> state" where
  "contributions E cfg [] s = ([], s)"
| "contributions E cfg (src # rest) s =
     (case getFromSource E cfg src s of
        (Inr found, s1) \<Rightarrow>
          (case contributions E cfg rest s1 of
             (cs, s2) \<Rightarrow> (slice0 found (maxQueriesPerSource cfg) # cs, s2))
      | (Inl error, s1) \<Rightarrow>
          (case contributions E cfg rest
                  (log_msg ''QUERY-DIVERSITY''
                     (ascii ''Failed to fetch from '' @ src @ ascii '': '' @ error_message error)
                     Warn s1) of
             (cs, s2) \<Rightarrow> ([] # cs, s2)))"

text \<open>
  A social-feed listing with one post:
  \<^verbatim>\<open>{"data":{"children":[{"data":{"title":"Solar eclipse visible tonight"}}]}}\<close>
\<close>

definition reddit_listing :: json where
  "reddit_listing =
     JObj 1 [(ascii ''data'',
       JObj 2 [(ascii ''children'',
         JArr 3 [JObj 4 [(ascii ''data'',
           JObj 5 [(ascii ''title'', JStr (ascii ''Solar eclipse visible tonight''))])]])])]"

text \<open>
  The trends endpoint answers with a page that is not JSON, the social feed with the
  listing.
\<close>

definition mixed_env :: env where
  "mixed_env = serving
     [(ascii ''https://trends.google.com/trends/api/dailytrends?geo=US'', ascii ''<html>''),
      (ascii ''https://www.reddit.com/r/news/hot.json?limit=15'', ascii ''listing'')]
     [(ascii ''listing'', reddit_listing)]"

definition trends_and_reddit :: QueryDiversityConfig where
  "trends_and_reddit = constructor (Some
     \<lparr>sources_arg = Some [ascii ''google-trends'', ascii ''reddit''],
      deduplicate_arg = None, mixStrategies_arg = None,
      maxQueriesPerSource_arg = None, cacheMinutes_arg = None\<rparr>)"

text \<open>
  A trends answer and a social-feed listing that hold the same text, so that the collected
  list has a duplicate.
\<close>

definition echo_trend :: json where
  "echo_trend =
     JObj 1 [(ascii ''default'',
       JObj 2 [(ascii ''trendingSearchesDays'',
         JArr 3 [JObj 4 [(ascii ''trendingSearches'',
           JArr 5 [JObj 6 [(ascii ''title'',
             JObj 7 [(ascii ''query'', JStr (ascii ''Solar eclipse visible tonight''))])]])]])])]"

definition echo_env :: env where
  "echo_env = serving
     [(ascii ''https://trends.google.com/trends/api/dailytrends?geo=US'',
       hijack_prefix @ ascii ''trends''),
      (ascii ''https://www.reddit.com/r/news/hot.json?limit=15'', ascii ''listing'')]
     [(ascii ''trends'', echo_trend), (ascii ''listing'', reddit_listing)]"

subsection \<open>Two sources with two queries each\<close>





subsection \<open>Requests per fetch\<close>

text \<open>
  The number of requests one fetch of a source issues at most: the regional adapter asks
  two JSON endpoints and then the HTML board, the news adapter the API and then the
  scraper, the other remote adapters one address; the local fallback and an unknown source
  none.
\<close>

definition max_requests :: "jstring \<Rightarrow> nat" where
  "max_requests src =
     (if src = ascii ''cn-news'' then 3
      else if src = ascii ''news'' then 2
      else if src \<in> set remote_sources then 1
      else 0)"

text \<open>A computation that issues at most \<open>n\<close> requests.\<close>

definition issues :: "nat \<Rightarrow> state \<Rightarrow> ('e + 'a) \<times> state \<Rightarrow> bool" where
  "issues n s m \<longleftrightarrow> length (requests (snd m)) \<le> length (requests s) + n"


subsection \<open>Auxiliary facts\<close>

lemma trunc_nonneg: "0 \<le> e \<Longrightarrow> trunc e = \<lfloor>e\<rfloor>"
  by (simp add: trunc_def)

lemma slice0_nonneg: "0 \<le> e \<Longrightarrow> slice0 xs e = take (nat \<lfloor>e\<rfloor>) xs"
  by (simp add: slice0_def trunc_nonneg Let_def)

lemma set_slice0: "set (slice0 xs e) \<subseteq> set xs"
  by (auto simp: slice0_def Let_def dest: in_set_takeD)

lemma length_slice0: "length (slice0 xs e) \<le> length xs"
  by (simp add: slice0_def Let_def min_def)

lemma slice0_subseq: "subseq (slice0 xs e) xs"
  by (simp add: slice0_def Let_def prefix_imp_subseq take_is_prefix)

lemma distinct_slice0: "distinct xs \<Longrightarrow> distinct (slice0 xs e)"
  by (simp add: slice0_def Let_def)

lemma slice0_Nil [simp]: "slice0 [] e = []"
  by (simp add: slice0_def Let_def)

lemma slice0_eq_Nil: "1 \<le> e \<Longrightarrow> slice0 xs e = [] \<longleftrightarrow> xs = []"
proof -
  assume "1 \<le> e"
  then have "1 \<le> \<lfloor>e\<rfloor>" by linarith
  with \<open>1 \<le> e\<close> show ?thesis by (auto simp: slice0_nonneg)
qed

lemma length_slice0_le: "0 \<le> e \<Longrightarrow> of_nat (length (slice0 xs e)) \<le> e"
proof -
  assume e: "0 \<le> e"
  have "length (slice0 xs e) \<le> nat \<lfloor>e\<rfloor>" using e by (simp add: slice0_nonneg)
  then have "(of_nat (length (slice0 xs e)) :: rat) \<le> of_nat (nat \<lfloor>e\<rfloor>)"
    using of_nat_le_iff by blast
  also have "\<dots> = of_int \<lfloor>e\<rfloor>" using e by simp
  also have "\<dots> \<le> e" by simp
  finally show ?thesis .
qed

lemma mset_shuffleArray: "mset (shuffleArray picks xs) = mset xs"
proof (induction picks xs rule: shuffleArray.induct)
  case (3 p picks x xs)
  let ?l = "x # xs"
  let ?i = "p mod length ?l"
  have i: "?i < length ?l" by simp
  have "mset (shuffleArray (p # picks) ?l)
        = add_mset (?l ! ?i) (mset (shuffleArray picks (take ?i ?l @ drop (Suc ?i) ?l)))"
    by (simp add: Let_def)
  also have "\<dots> = add_mset (?l ! ?i) (mset (take ?i ?l @ drop (Suc ?i) ?l))"
    using 3 by simp
  also have "\<dots> = mset (take ?i ?l @ ?l ! ?i # drop (Suc ?i) ?l)"
    by simp
  also have "\<dots> = mset ?l"
    using id_take_nth_drop[OF i] by simp
  finally show ?case .
qed simp_all

lemma set_shuffleArray: "set (shuffleArray picks xs) = set xs"
  by (metis mset_shuffleArray set_mset_mset)

lemma length_shuffleArray: "length (shuffleArray picks xs) = length xs"
  by (metis mset_shuffleArray size_mset)

lemma distinct_shuffleArray: "distinct (shuffleArray picks xs) = distinct xs"
  by (metis mset_shuffleArray mset_eq_imp_distinct_iff)

lemma shuffleArray_eq_Nil: "shuffleArray picks xs = [] \<longleftrightarrow> xs = []"
  by (metis length_shuffleArray length_0_conv)

lemma andThen_simps [simp]:
  "andThen (Inl e, s) f = (Inl e, s)"
  "andThen (Inr x, s) f = f x s"
  by (simp_all add: andThen_def)

lemma try_catch_simps [simp]:
  "try_catch (Inl e, s) h = h e s"
  "try_catch (Inr x, s) h = (Inr x, s)"
  by (simp_all add: try_catch_def)

lemma cache_next_tick [simp]: "cache (next_tick s) = cache s"
  by (simp add: next_tick_def)

lemma cache_log_msg [simp]: "cache (log_msg a b c s) = cache s"
  by (simp add: log_msg_def)

lemma outside_refl [simp]: "outside s s"
  by (simp add: outside_def)

lemma outside_trans: "outside s s1 \<Longrightarrow> outside s1 s2 \<Longrightarrow> outside s s2"
  by (auto simp: outside_def)

lemma outside_next_tick: "outside s (next_tick s)"
  by (simp add: outside_def next_tick_def)

lemma outside_log_msg: "outside s (log_msg a b c s)"
  by (simp add: outside_def log_msg_def)

lemma outside_fetchHttp: "outside s (snd (fetchHttp E u c s))"
  by (simp add: fetchHttp_def Let_def outside_def next_tick_def log_msg_def split: sum.splits json.splits)

lemma outside_parse: "outside s (snd (parse E t s))"
  by (simp add: parse_def outside_next_tick)

lemma outside_andThen:
  assumes "outside s (snd m)" "\<And>x s1. m = (Inr x, s1) \<Longrightarrow> outside s1 (snd (f x s1))"
  shows "outside s (snd (andThen m f))"
proof (cases m)
  case (Pair r s1)
  then show ?thesis using assms by (cases r) (auto intro: outside_trans)
qed

lemma outside_try_catch:
  assumes "outside s (snd m)" "\<And>e s1. m = (Inl e, s1) \<Longrightarrow> outside s1 (snd (h e s1))"
  shows "outside s (snd (try_catch m h))"
proof (cases m)
  case (Pair r s1)
  then show ?thesis using assms by (cases r) (auto intro: outside_trans)
qed

lemma outside_fetchGoogleTrends: "outside s (snd (fetchGoogleTrends E s))"
  unfolding fetchGoogleTrends_def fetchGoogleTrends_try_def
  by (intro outside_try_catch outside_andThen outside_fetchHttp outside_parse) simp_all

lemma outside_random: "outside s (snd (random E s))"
  by (simp add: random_def outside_next_tick)

lemma outside_now: "outside s (snd (now E s))"
  by (simp add: now_def outside_next_tick)

lemma outside_fetchReddit: "outside s (snd (fetchReddit E s))"
  unfolding fetchReddit_def fetchReddit_try_def
  apply (cases "random E s")
  subgoal for r s0
    using outside_random[of s E]
    apply simp
    apply (rule outside_trans, assumption)
    apply (intro outside_try_catch outside_andThen outside_fetchHttp outside_parse)
    apply simp_all
    done
  done

lemma outside_fetchNewsFallback: "outside s (snd (fetchNewsFallback E s))"
  unfolding fetchNewsFallback_def fetchNewsFallback_try_def
  by (intro outside_try_catch outside_andThen outside_fetchHttp outside_parse) simp_all

lemma outside_fetchNews: "outside s (snd (fetchNews E s))"
  unfolding fetchNews_def fetchNews_try_def
  by (auto split: option.splits
      intro!: outside_try_catch outside_andThen outside_fetchHttp outside_parse outside_fetchNewsFallback)

lemma outside_fetchWikipedia: "outside s (snd (fetchWikipedia E s))"
  unfolding fetchWikipedia_def fetchWikipedia_try_def
  by (intro outside_try_catch outside_andThen outside_fetchHttp outside_parse) simp_all

lemma outside_extractCnNewsFromJson: "outside s (snd (extractCnNewsFromJson E t s))"
  unfolding extractCnNewsFromJson_def
  by (intro outside_try_catch outside_andThen outside_parse)
     (auto split: sum.splits prod.splits simp: outside_log_msg)

lemma outside_tryEndpoints: "outside s (snd (tryEndpoints E cfg es s))"
proof (induction es arbitrary: s)
  case Nil
  then show ?case by simp
next
  case (Cons e es)
  show ?case
    apply simp
    apply (intro outside_andThen outside_fetchHttp outside_extractCnNewsFromJson)
    apply (simp add: Cons)
    done
qed

lemma outside_fetchCnNews: "outside s (snd (fetchCnNews E cfg s))"
  unfolding fetchCnNews_def fetchCnNews_try_def
  apply (intro outside_try_catch outside_andThen outside_tryEndpoints)
   apply (auto split: option.splits simp: outside_log_msg Let_def intro!: outside_andThen outside_fetchHttp)
  done

lemma outside_shuffle: "outside s (snd (shuffle E xs s))"
  by (simp add: shuffle_def outside_next_tick)

lemma outside_getLocalFallback: "outside s (snd (getLocalFallback E n s))"
  using outside_shuffle[of s E "map JStr fallback"]
  by (auto simp: getLocalFallback_def split: prod.splits)

lemma outside_fetchSource: "outside s (snd (fetchSource E cfg src s))"
  using outside_getLocalFallback[of s E 20]
  by (auto simp: fetchSource_def outside_fetchGoogleTrends outside_fetchReddit outside_fetchNews
      outside_fetchCnNews outside_fetchWikipedia outside_log_msg split: prod.splits)

lemma returns_imp_may: "returns Q m \<Longrightarrow> may_return Q m"
  by (auto simp: returns_def may_return_def)

lemma may_return_andThen:
  assumes "\<And>x s1. m = (Inr x, s1) \<Longrightarrow> may_return Q (f x s1)"
  shows "may_return Q (andThen m f)"
proof (cases m)
  case (Pair r s1)
  then show ?thesis using assms by (cases r) (auto simp: may_return_def)
qed

lemma returns_try_catch:
  assumes "may_return Q m" "\<And>e s1. m = (Inl e, s1) \<Longrightarrow> returns Q (h e s1)"
  shows "returns Q (try_catch m h)"
proof (cases m)
  case (Pair r s1)
  then show ?thesis using assms by (cases r) (auto simp: may_return_def returns_def)
qed

lemma may_return_pure: "(\<And>x. r = Inr x \<Longrightarrow> Q x) \<Longrightarrow> may_return Q (r, s)"
  by (simp add: may_return_def)

lemma returns_pure: "Q x \<Longrightarrow> returns Q (Inr x, s)"
  by (simp add: returns_def)

lemma bindE_eq_Inr: "bindE m f = Inr y \<longleftrightarrow> (\<exists>x. m = Inr x \<and> f x = Inr y)"
  by (cases m) auto

lemma mapE_eq_Inr:
  "mapE f xs = Inr ys \<Longrightarrow> length ys = length xs \<and> (\<forall>i<length xs. f (xs ! i) = Inr (ys ! i))"
proof (induction xs arbitrary: ys)
  case (Cons x xs)
  then show ?case by (auto split: sum.splits simp: nth_Cons')
qed simp

lemma flatMapE_all:
  assumes "flatMapE f xs = Inr ys" "\<And>x zs. x \<in> set xs \<Longrightarrow> f x = Inr zs \<Longrightarrow> \<forall>z\<in>set zs. P z"
  shows "\<forall>y\<in>set ys. P y"
proof -
  from assms(1) obtain yss where m: "mapE f xs = Inr yss" and ys: "ys = concat yss"
    by (auto simp: flatMapE_def bindE_eq_Inr)
  from mapE_eq_Inr[OF m] have "\<forall>zs\<in>set yss. \<exists>x\<in>set xs. f x = Inr zs"
    by (metis in_set_conv_nth)
  with assms(2) ys show ?thesis by auto
qed

lemma keep_if_all: "\<forall>q\<in>set (keep_if P v). truthy q \<and> P q"
  by (cases v) auto

lemma trendingQueries_truthy: "trendingQueries parsed = Inr qs \<Longrightarrow> all_truthy qs"
  unfolding trendingQueries_def all_truthy_def
  apply (clarsimp simp: bindE_eq_Inr)
  apply (erule flatMapE_all[rule_format, rotated 2], assumption)
  apply (clarsimp simp: bindE_eq_Inr)
  apply (erule flatMapE_all[rule_format, rotated 2], assumption)
  apply (clarsimp simp: bindE_eq_Inr)
  using keep_if_all apply blast
  done

lemma all_truthy_Nil [simp]: "all_truthy []"
  by (simp add: all_truthy_def)

lemma all_truthy_take: "all_truthy qs \<Longrightarrow> all_truthy (take n qs)"
  by (auto simp: all_truthy_def dest: in_set_takeD)

lemma all_truthy_slice0: "all_truthy qs \<Longrightarrow> all_truthy (slice0 qs e)"
  using set_slice0[of qs e] by (auto simp: all_truthy_def)

lemma all_truthy_append [simp]: "all_truthy (xs @ ys) \<longleftrightarrow> all_truthy xs \<and> all_truthy ys"
  by (auto simp: all_truthy_def)

lemma returns_fetchGoogleTrends: "returns all_truthy (fetchGoogleTrends E s)"
  unfolding fetchGoogleTrends_def fetchGoogleTrends_try_def
  by (intro returns_try_catch may_return_andThen may_return_pure returns_pure)
     (auto simp: bindE_eq_Inr dest!: trendingQueries_truthy intro: all_truthy_take)

lemma redditTitles_truthy: "redditTitles E parsed = Inr qs \<Longrightarrow> all_truthy qs"
  unfolding redditTitles_def all_truthy_def
  apply (clarsimp simp: bindE_eq_Inr)
  apply (erule flatMapE_all[rule_format, rotated 2], assumption)
  apply (clarsimp simp: bindE_eq_Inr)
  using keep_if_all apply blast
  done

lemma returns_fetchReddit: "returns all_truthy (fetchReddit E s)"
  unfolding fetchReddit_def fetchReddit_try_def
  apply (cases "random E s")
  apply simp
  apply (intro returns_try_catch may_return_andThen may_return_pure returns_pure)
   apply (auto dest!: redditTitles_truthy)
  done

lemma all_strings_truthy: "all_strings qs \<Longrightarrow> all_truthy qs"
  by (auto simp: all_strings_def all_truthy_def)

lemma all_strings_Nil [simp]: "all_strings []"
  by (simp add: all_strings_def)

lemma all_strings_slice0: "all_strings qs \<Longrightarrow> all_strings (slice0 qs e)"
  using set_slice0[of qs e] by (auto simp: all_strings_def)

lemma returns_fetchNewsFallback: "returns all_strings (fetchNewsFallback E s)"
  unfolding fetchNewsFallback_def fetchNewsFallback_try_def
  by (intro returns_try_catch may_return_andThen may_return_pure returns_pure)
     (auto simp: all_strings_def heading_ok_def dest!: in_set_takeD)

lemma titlesOf_truthy: "titlesOf E lo v = Inr qs \<Longrightarrow> all_truthy qs"
  unfolding titlesOf_def all_truthy_def
  using keep_if_all by (fastforce simp: bindE_eq_Inr)

lemma returns_mono: "returns P m \<Longrightarrow> (\<And>x. P x \<Longrightarrow> Q x) \<Longrightarrow> returns Q m"
  by (auto simp: returns_def)

lemma returns_fetchNewsFallback_truthy: "returns all_truthy (fetchNewsFallback E s)"
  by (rule returns_mono[OF returns_fetchNewsFallback]) (rule all_strings_truthy)

lemma returns_fetchNews: "returns all_truthy (fetchNews E s)"
  unfolding fetchNews_def fetchNews_try_def
  by (auto split: option.splits simp: bindE_eq_Inr
      intro!: returns_try_catch may_return_andThen may_return_pure
              returns_fetchNewsFallback_truthy
      dest!: titlesOf_truthy)

lemma returns_fetchWikipedia: "returns all_truthy (fetchWikipedia E s)"
  unfolding fetchWikipedia_def fetchWikipedia_try_def
  by (intro returns_try_catch may_return_andThen may_return_pure returns_pure)
     (auto simp: bindE_eq_Inr dest!: titlesOf_truthy)

lemma cn_titles_strings: "cn_titles qs \<Longrightarrow> all_strings qs"
  by (fastforce simp: cn_titles_def all_strings_def)

lemma cn_titles_Nil [simp]: "cn_titles []"
  by (simp add: cn_titles_def)

lemma cn_titles_slice0: "cn_titles qs \<Longrightarrow> cn_titles (slice0 qs e)"
  using set_slice0[of qs e] by (auto simp: cn_titles_def)

lemma keep_title_cn: "\<forall>q\<in>set (keep_title t). \<exists>u. q = JStr u \<and> 2 < length u \<and> length u < 100"
  by (cases t) (auto simp: heading_ok_def)

lemma cnExtract_titles: "cnExtract parsed = Inr (cs, items, qs) \<Longrightarrow> cn_titles qs"
  unfolding cnExtract_def cn_titles_def Let_def
  using keep_title_cn by (fastforce simp: bindE_eq_Inr)

lemma returns_extractCnNewsFromJson: "returns cn_titles (extractCnNewsFromJson E t s)"
  unfolding extractCnNewsFromJson_def
  by (intro returns_try_catch may_return_andThen returns_pure)
     (auto simp: may_return_def split: sum.splits dest!: cnExtract_titles)

lemma set_set_insertions: "set (set_insertions seen xs) = set xs - set seen"
  by (induction xs arbitrary: seen) auto

lemma distinct_set_insertions: "distinct (set_insertions seen xs)"
  by (induction xs arbitrary: seen) (auto simp: set_set_insertions)

lemma subseq_set_insertions: "subseq (set_insertions seen xs) xs"
  by (induction xs arbitrary: seen) auto

lemma set_array_from_set [simp]: "set (array_from_set xs) = set xs"
  by (simp add: array_from_set_def set_set_insertions)

lemma distinct_array_from_set [simp]: "distinct (array_from_set xs)"
  by (simp add: array_from_set_def distinct_set_insertions)

lemma subseq_array_from_set: "subseq (array_from_set xs) xs"
  by (simp add: array_from_set_def subseq_set_insertions)

lemma extractCnNewsFromHtml_titles: "cn_titles (extractCnNewsFromHtml E html)"
  by (auto simp: extractCnNewsFromHtml_def cn_titles_def heading_ok_def)

lemma may_return_tryEndpoints:
  "may_return (\<lambda>r. case r of None \<Rightarrow> True | Some qs \<Rightarrow> cn_titles qs) (tryEndpoints E cfg es s)"
proof (induction es arbitrary: s)
  case Nil
  then show ?case by (simp add: may_return_def)
next
  case (Cons e es)
  show ?case
    apply simp
    apply (intro may_return_andThen)
    subgoal for body s1 found s2
      using returns_extractCnNewsFromJson[of E body s1] Cons[of s2]
      by (auto simp: returns_def may_return_def cn_titles_slice0)
    done
qed

lemma returns_fetchCnNews: "returns cn_titles (fetchCnNews E cfg s)"
  unfolding fetchCnNews_def fetchCnNews_try_def
proof (intro returns_try_catch may_return_andThen returns_pure)
  fix early s1
  assume t: "tryEndpoints E cfg endpoints s = (Inr early, s1)"
  show "may_return cn_titles
          (case early of
             None \<Rightarrow>
               andThen (fetchHttp E (ascii ''https://top.baidu.com/board?tab=realtime'')
                          cn_html_options s1)
                (\<lambda>html s2.
                    let htmlQueries = extractCnNewsFromHtml E html
                    in (Inr (slice0 htmlQueries (maxQueriesPerSource cfg)),
                        if htmlQueries = []
                        then log_msg ''QUERY-DIVERSITY''
                               (ascii ''CN news returned no items from JSON or HTML sources'')
                               Warn s2
                        else s2))
           | Some found \<Rightarrow> (Inr found, s1))"
  proof (cases early)
    case None
    show ?thesis
      unfolding None option.case
      by (rule may_return_andThen)
         (simp add: may_return_def Let_def cn_titles_slice0 extractCnNewsFromHtml_titles)
  next
    case (Some found)
    with may_return_tryEndpoints[of E cfg endpoints s] t show ?thesis
      by (simp add: may_return_def)
  qed
qed simp

lemma fallback_strings: "all_strings (map JStr fallback)"
  by (simp add: all_strings_def fallback_def ascii_def)

lemma all_strings_shuffleArray: "all_strings (shuffleArray p xs) = all_strings xs"
  by (simp add: all_strings_def set_shuffleArray)

lemma all_truthy_shuffleArray: "all_truthy (shuffleArray p xs) = all_truthy xs"
  by (simp add: all_truthy_def set_shuffleArray)

lemma getLocalFallback_strings: "all_strings (fst (getLocalFallback E n s))"
  by (simp add: getLocalFallback_def shuffle_def all_strings_slice0 all_strings_shuffleArray fallback_strings)

lemma returns_fetchCnNews_truthy: "returns all_truthy (fetchCnNews E cfg s)"
  by (rule returns_mono[OF returns_fetchCnNews]) (auto intro: all_strings_truthy cn_titles_strings)

lemma returns_fetchSource: "returns all_truthy (fetchSource E cfg src s)"
  using getLocalFallback_strings[of E 20 s]
  by (auto simp: fetchSource_def returns_fetchGoogleTrends returns_fetchReddit returns_fetchNews
      returns_fetchWikipedia returns_fetchCnNews_truthy returns_pure all_strings_truthy
      split: prod.splits)


lemma cache_ok_cong: "cache s' = cache s \<Longrightarrow> cache_ok s' = cache_ok s"
  by (simp add: cache_ok_def)

lemma cache_ok_outside: "outside s s' \<Longrightarrow> cache_ok s \<Longrightarrow> cache_ok s'"
  by (simp add: cache_ok_def outside_def)

lemma cache_ok_cleanExpiredCache: "cache_ok s \<Longrightarrow> cache_ok (cleanExpiredCache E s)"
  by (auto simp: cache_ok_def cleanExpiredCache_def now_def split: option.splits if_splits)

lemma fetchSource_unknown:
  "src \<notin> set known_sources \<Longrightarrow>
   fetchSource E cfg src s =
     (Inr [], log_msg ''QUERY-DIVERSITY'' (ascii ''Unknown source: '' @ src) Warn s)"
  by (auto simp: fetchSource_def known_sources_def)

lemma fetchSource_nonempty_known:
  "fetchSource E cfg src s = (Inr qs, s') \<Longrightarrow> qs \<noteq> [] \<Longrightarrow> src \<in> set known_sources"
  using fetchSource_unknown[of src E cfg s] by auto

lemma cache_ok_update:
  assumes "cache_ok s" "src \<in> set known_sources" "qs \<noteq> []" "all_truthy qs"
  shows "cache_ok (s\<lparr>cache := (cache s)(src \<mapsto> \<lparr>queries = qs, expires = x\<rparr>)\<rparr>)"
  using assms unfolding cache_ok_def by (simp split: if_splits)

lemma refresh_eq:
  "fetchSource E cfg src s = (Inr qs, s1) \<Longrightarrow>
   refresh E cfg src s =
     (if qs = []
      then (Inr [], log_msg ''QUERY-DIVERSITY''
                      (ascii ''No queries returned for source: '' @ src) Warn s1)
      else (Inr qs, (next_tick s1)\<lparr>cache := (cache s1)(src \<mapsto>
                \<lparr>queries = qs,
                 expires = num_add E (of_int (Date_now E (tick s1))) (num_mul E (cacheMinutes cfg) 60000)\<rparr>)\<rparr>))"
  by (simp add: refresh_def now_def next_tick_def)

lemma refresh_ok:
  assumes "cache_ok s"
  shows "\<exists>qs s'. refresh E cfg src s = (Inr qs, s') \<and> all_truthy qs \<and> cache_ok s'"
proof -
  obtain r s1 where f: "fetchSource E cfg src s = (r, s1)" by (cases "fetchSource E cfg src s")
  with returns_fetchSource[of E cfg src s] obtain qs where r: "r = Inr qs" and t: "all_truthy qs"
    by (auto simp: returns_def)
  from outside_fetchSource[of s E cfg src] f assms have ok1: "cache_ok s1"
    by (auto intro: cache_ok_outside)
  note eq = refresh_eq[OF f[unfolded r], of]
  show ?thesis
  proof (cases "qs = []")
    case True
    have "cache_ok (log_msg ''QUERY-DIVERSITY''
                      (ascii ''No queries returned for source: '' @ src) Warn s1)"
      using ok1 by (simp add: cache_ok_def)
    with eq True show ?thesis by simp
  next
    case False
    with fetchSource_nonempty_known f r have k: "src \<in> set known_sources" by blast
    have "cache_ok (next_tick s1)" using ok1 by (simp add: cache_ok_def)
    from cache_ok_update[OF this k False t]
    have "cache_ok ((next_tick s1)\<lparr>cache := (cache s1)(src \<mapsto>
                \<lparr>queries = qs,
                 expires = num_add E (of_int (Date_now E (tick s1))) (num_mul E (cacheMinutes cfg) 60000)\<rparr>)\<rparr>)"
      by simp
    with eq False t show ?thesis by simp
  qed
qed

lemma getFromSource_eq:
  "getFromSource E cfg src s =
     (case cache (cleanExpiredCache E s) src of
        None \<Rightarrow> refresh E cfg src (cleanExpiredCache E s)
      | Some cached \<Rightarrow>
          if of_int (Date_now E (tick (cleanExpiredCache E s))) < expires cached
          then (Inr (queries cached), next_tick (cleanExpiredCache E s))
          else refresh E cfg src (next_tick (cleanExpiredCache E s)))"
  by (simp add: getFromSource_def now_def Let_def split: option.splits)

lemma getFromSource_ok:
  assumes "cache_ok s"
  shows "\<exists>qs s'. getFromSource E cfg src s = (Inr qs, s') \<and> all_truthy qs \<and> cache_ok s'"
proof -
  let ?s1 = "cleanExpiredCache E s"
  have ok1: "cache_ok ?s1" using assms by (rule cache_ok_cleanExpiredCache)
  show ?thesis
  proof (cases "cache ?s1 src")
    case None
    with refresh_ok[OF ok1, of E cfg src] show ?thesis by (simp add: getFromSource_eq)
  next
    case (Some cached)
    have ok2: "cache_ok (next_tick ?s1)" using ok1 by (simp add: cache_ok_def)
    from Some ok1 have t: "all_truthy (queries cached)" by (auto simp: cache_ok_def)
    show ?thesis
    proof (cases "of_int (Date_now E (tick ?s1)) < expires cached")
      case True
      with Some t ok2 show ?thesis by (simp add: getFromSource_eq)
    next
      case False
      with Some refresh_ok[OF ok2, of E cfg src] show ?thesis by (simp add: getFromSource_eq)
    qed
  qed
qed

lemma length_slice0_floor: "0 \<le> e \<Longrightarrow> length (slice0 xs e) \<le> nat \<lfloor>e\<rfloor>"
  by (simp add: slice0_nonneg)

lemma collect_ok:
  assumes "cache_ok s" "all_truthy acc" "0 \<le> maxQueriesPerSource cfg"
  shows "\<exists>qs s'. collect E cfg srcs acc s = (Inr qs, s') \<and> all_truthy qs \<and> cache_ok s'
           \<and> length qs \<le> length acc + length srcs * nat \<lfloor>maxQueriesPerSource cfg\<rfloor>"
  using assms(1,2)
proof (induction srcs arbitrary: acc s)
  case Nil
  then show ?case by simp
next
  case (Cons src srcs)
  from getFromSource_ok[OF Cons.prems(1), of E cfg src]
  obtain found s1 where g: "getFromSource E cfg src s = (Inr found, s1)"
    and t: "all_truthy found" and ok1: "cache_ok s1" by blast
  let ?acc = "acc @ slice0 found (maxQueriesPerSource cfg)"
  have t': "all_truthy ?acc" using Cons.prems(2) t by (simp add: all_truthy_slice0)
  from Cons.IH[OF ok1 t'] obtain qs s' where c: "collect E cfg srcs ?acc s1 = (Inr qs, s')"
    and r: "all_truthy qs" "cache_ok s'"
    and l: "length qs \<le> length ?acc + length srcs * nat \<lfloor>maxQueriesPerSource cfg\<rfloor>"
    by blast
  have "length ?acc \<le> length acc + nat \<lfloor>maxQueriesPerSource cfg\<rfloor>"
    using length_slice0_floor[OF assms(3), of found] by simp
  with l have "length qs \<le> length acc + length (src # srcs) * nat \<lfloor>maxQueriesPerSource cfg\<rfloor>"
    by simp
  with g c r show ?case by simp
qed

declare interleaveLoop.simps [simp del]

lemma interleaveLoop_extends:
  "\<exists>ys. interleaveLoop cs n qs tc i si result = result @ ys \<and> subseq ys (drop i qs)"
proof (induction cs n qs tc i si result rule: interleaveLoop.induct)
  case (1 cs n qs tc i si result)
  show ?case
  proof (cases "i < length qs \<and> of_nat (length result) < tc")
    case False
    then show ?thesis by (subst interleaveLoop.simps) auto
  next
    case True
    let ?si = "if int i = int si * cs + cs - 1 then (si + 1) mod n else si"
    let ?res = "if truthy (qs ! i) \<and> int si * cs \<le> int i \<and> int i < int si * cs + cs
                then result @ [qs ! i] else result"
    have step: "interleaveLoop cs n qs tc i si result = interleaveLoop cs n qs tc (i + 1) ?si ?res"
      using True by (subst interleaveLoop.simps) (simp add: Let_def)
    from "1.IH"[OF True refl refl refl]
    obtain ys where ys: "interleaveLoop cs n qs tc (i + 1) ?si ?res = ?res @ ys"
      and sub: "subseq ys (drop (i + 1) qs)"
      by (auto simp: Let_def)
    have d: "drop i qs = qs ! i # drop (i + 1) qs"
      using True by (simp add: Cons_nth_drop_Suc)
    show ?thesis
    proof (cases "truthy (qs ! i) \<and> int si * cs \<le> int i \<and> int i < int si * cs + cs")
      case t: True
      then have "interleaveLoop cs n qs tc i si result = result @ (qs ! i # ys)"
        using step ys by simp
      moreover have "subseq (qs ! i # ys) (drop i qs)" using sub d by simp
      ultimately show ?thesis by blast
    next
      case f: False
      then have "interleaveLoop cs n qs tc i si result = result @ ys"
        using step ys by auto
      moreover have "subseq ys (drop i qs)" using sub d by (simp add: list_emb_Cons)
      ultimately show ?thesis by blast
    qed
  qed
qed

lemma subseq_interleaveQueries: "subseq (interleaveQueries cfg qs tc) qs"
proof -
  obtain ys where "interleaveLoop \<lceil>maxQueriesPerSource cfg\<rceil> (length (sources cfg)) qs tc 0 0 [] = ys"
    and "subseq ys qs"
    using interleaveLoop_extends[of "\<lceil>maxQueriesPerSource cfg\<rceil>" "length (sources cfg)" qs tc 0 0 "[]"]
    by auto
  then show ?thesis
    using slice0_subseq[of qs tc] slice0_subseq[of ys tc]
    by (auto simp: interleaveQueries_def Let_def intro: subseq_order.order_trans)
qed

lemma subseq_preShuffle:
  "subseq (preShuffle cfg vc allQueries)
     (if deduplicate cfg then array_from_set allQueries else allQueries)"
  by (simp add: preShuffle_def Let_def subseq_interleaveQueries)

lemma subseq_subset: "subseq xs ys \<Longrightarrow> set xs \<subseteq> set ys"
  by (induction rule: list_emb.induct) auto

lemma subseq_distinct: "subseq xs ys \<Longrightarrow> distinct ys \<Longrightarrow> distinct xs"
  by (induction rule: list_emb.induct) (auto dest: subseq_subset)

lemma set_preShuffle: "set (preShuffle cfg vc allQueries) \<subseteq> set allQueries"
  using subseq_preShuffle[of cfg vc allQueries]
  by (auto dest!: subseq_subset split: if_splits)

lemma all_truthy_preShuffle: "all_truthy allQueries \<Longrightarrow> all_truthy (preShuffle cfg vc allQueries)"
  using set_preShuffle[of cfg vc allQueries] by (auto simp: all_truthy_def)

lemma preShuffle_Nil [simp]: "preShuffle cfg vc [] = []"
  using set_preShuffle[of cfg vc "[]"] by simp

lemma collect_step:
  "getFromSource E cfg src s = (Inr found, s1) \<Longrightarrow>
   collect E cfg (src # srcs) acc s
     = collect E cfg srcs (acc @ slice0 found (maxQueriesPerSource cfg)) s1"
  by simp

lemma collect_total:
  assumes "cache_ok s" "all_truthy acc"
  shows "\<exists>qs s'. collect E cfg srcs acc s = (Inr qs, s') \<and> all_truthy qs \<and> cache_ok s'"
  using assms
proof (induction srcs arbitrary: acc s)
  case Nil
  then show ?case by simp
next
  case (Cons src srcs)
  from getFromSource_ok[OF Cons.prems(1), of E cfg src]
  obtain found s1 where g: "getFromSource E cfg src s = (Inr found, s1)"
    and t: "all_truthy found" and ok1: "cache_ok s1" by blast
  have "all_truthy (acc @ slice0 found (maxQueriesPerSource cfg))"
    using Cons.prems(2) t by (simp add: all_truthy_slice0)
  from Cons.IH[OF ok1 this] show ?case
    unfolding collect_step[OF g] .
qed

lemma getLocalFallback_eq:
  "getLocalFallback E n s =
     (slice0 (shuffleArray (shuffle_picks E (tick s)) (map JStr fallback)) n, next_tick s)"
  by (simp add: getLocalFallback_def shuffle_def)

lemma length_fallback: "length fallback = 30"
  by (simp add: fallback_def)

lemma getLocalFallback_nonempty: "1 \<le> n \<Longrightarrow> fst (getLocalFallback E n s) \<noteq> []"
  by (simp add: getLocalFallback_eq slice0_eq_Nil shuffleArray_eq_Nil fallback_def)

lemma getLocalFallback_subset: "set (fst (getLocalFallback E n s)) \<subseteq> JStr ` set fallback"
  using set_slice0[of "shuffleArray (shuffle_picks E (tick s)) (map JStr fallback)" n]
  by (auto simp: getLocalFallback_eq set_shuffleArray)

lemma fetchQueries_eq:
  assumes "collect E cfg (sources cfg) [] s = (Inr allQueries, s1)"
  shows "fetchQueries E cfg cnt s =
     (let validCount = max 1 (min cnt 200);
          final = slice0 (shuffleArray (shuffle_picks E (tick s1))
                            (preShuffle cfg validCount allQueries)) validCount
      in if final = []
         then (Inr (fst (getLocalFallback E validCount (next_tick s1))),
               snd (getLocalFallback E validCount
                      (log_msg ''QUERY-DIVERSITY''
                         (ascii ''All sources failed, using local fallback'') Warn (next_tick s1))))
         else (Inr final, next_tick s1))"
  using assms
  by (simp add: fetchQueries_def shuffle_def Let_def getLocalFallback_eq log_msg_def next_tick_def)

lemma cache_ok_next_tick: "cache_ok (next_tick s) = cache_ok s"
  by (simp add: cache_ok_def)

lemma fetchQueries_ok:
  assumes ok: "cache_ok s" and lo: "1 \<le> cnt" and hi: "cnt \<le> 200"
  shows "\<exists>qs s'. fetchQueries E cfg cnt s = (Inr qs, s') \<and> qs \<noteq> [] \<and> of_nat (length qs) \<le> cnt
           \<and> all_truthy qs \<and> cache_ok s'
           \<and> (fst (collect E cfg (sources cfg) [] s) = Inr [] \<longrightarrow> set qs \<subseteq> JStr ` set fallback)"
proof -
  from collect_total[OF ok, of "[]" E cfg "sources cfg"]
  obtain allQueries s1 where c: "collect E cfg (sources cfg) [] s = (Inr allQueries, s1)"
    and t: "all_truthy allQueries" and ok1: "cache_ok s1" by auto
  have vc: "max 1 (min cnt 200) = cnt" using lo hi by simp
  let ?final = "slice0 (shuffleArray (shuffle_picks E (tick s1)) (preShuffle cfg cnt allQueries)) cnt"
  let ?s3 = "snd (getLocalFallback E cnt
                      (log_msg ''QUERY-DIVERSITY''
                         (ascii ''All sources failed, using local fallback'') Warn (next_tick s1)))"
  note eq = fetchQueries_eq[OF c, of cnt, unfolded vc Let_def]
  have cnt0: "0 \<le> cnt" using lo by simp
  show ?thesis
  proof (cases "?final = []")
    case True
    let ?fb = "fst (getLocalFallback E cnt (next_tick s1))"
    have 1: "fetchQueries E cfg cnt s = (Inr ?fb, ?s3)" using eq True by simp
    have 2: "?fb \<noteq> []" using lo by (rule getLocalFallback_nonempty)
    have 3: "of_nat (length ?fb) \<le> cnt"
      unfolding getLocalFallback_eq fst_conv using cnt0 by (rule length_slice0_le)
    have 4: "all_truthy ?fb" using getLocalFallback_strings by (rule all_strings_truthy)
    have 5: "cache_ok ?s3" using ok1 by (simp add: getLocalFallback_eq cache_ok_def)
    have 6: "set ?fb \<subseteq> JStr ` set fallback" by (rule getLocalFallback_subset)
    from 1 2 3 4 5 6 show ?thesis by blast
  next
    case False
    have 1: "fetchQueries E cfg cnt s = (Inr ?final, next_tick s1)" using eq False by simp
    have 3: "of_nat (length ?final) \<le> cnt" using cnt0 by (rule length_slice0_le)
    have 4: "all_truthy ?final"
      using t by (simp add: all_truthy_slice0 all_truthy_shuffleArray all_truthy_preShuffle)
    have 5: "cache_ok (next_tick s1)" using ok1 by (simp add: cache_ok_next_tick)
    have 6: "allQueries \<noteq> []" using False by (auto simp: shuffleArray_eq_Nil)
    from 1 False 3 4 5 6 c show ?thesis by auto
  qed
qed

lemma trendingQueries_numeric_trend: "trendingQueries numeric_trend = Inr [JNum 5]"
  by (simp add: trendingQueries_def numeric_trend_def ascii_def iterate_or_empty_def
      flatMapE_def)

lemma set_insertions_eq:
  "set_insertions seen xs =
     map (\<lambda>i. xs ! i) (filter (\<lambda>i. xs ! i \<notin> set seen \<union> set (take i xs)) [0..<length xs])"
proof (induction xs arbitrary: seen)
  case Nil
  then show ?case by simp
next
  case (Cons x xs)
  have upt: "[0..<length (x # xs)] = 0 # map Suc [0..<length xs]"
    by (simp only: length_Cons upt_conv_Cons[OF zero_less_Suc] map_Suc_upt)
  show ?case
  proof (cases "x \<in> set seen")
    case True
    then have p: "(xs ! i \<notin> set seen \<and> xs ! i \<noteq> x \<and> Q) = (xs ! i \<notin> set seen \<and> Q)" for i Q
      by auto
    from True show ?thesis
      unfolding upt by (simp add: Cons filter_map comp_def p)
  next
    case False
    have p: "(A \<and> B \<and> Q) = (B \<and> A \<and> Q)" for A B Q
      by auto
    from False show ?thesis
      unfolding upt by (simp add: Cons filter_map comp_def p)
  qed
qed

lemma array_from_set_first_occurrences: "array_from_set xs = first_occurrences xs"
  by (simp add: array_from_set_def first_occurrences_def set_insertions_eq)

lemma array_from_set_dup_queries:
  "array_from_set dup_queries = [JStr (ascii ''b''), JStr (ascii ''a''), JStr (ascii ''c'')]"
  by (simp add: array_from_set_def dup_queries_def ascii_def)

lemma unwrap_leaf:
  "unwrapCnNewsContainer (JObj 8 [(ascii ''title'', JStr t)]) = Inr [JObj 8 [(ascii ''title'', JStr t)]]"
  by (simp add: nestedArrays_def container_keys_def ascii_def)

lemma unwrap_items:
  "unwrapCnNewsContainer (JObj 6 [(ascii ''items'', JArr 7 [JObj 8 [(ascii ''title'', JStr t)]])])
     = Inr [JObj 8 [(ascii ''title'', JStr t)]]"
  apply (subst unwrapCnNewsContainer.simps)
  apply (simp add: nestedArrays_def container_keys_def flatMapE_def unwrap_leaf)
  apply (simp add: ascii_def)
  done

lemma pick_title:
  "pickCnNewsTitle (JObj 8 [(ascii ''title'', JStr t)])
     = Inr (if 2 < length t \<and> length t < 100 then Some t else None)"
  by (simp add: pickCnNewsTitle_def candidates_def probe_def plain_string_def ascii_def)

lemma ascii_eq_iff [simp]: "ascii a = ascii b \<longleftrightarrow> a = b"
proof -
  have "inj (of_char :: char \<Rightarrow> nat)" by (rule injI) simp
  then show ?thesis unfolding ascii_def by (rule inj_map_eq_map)
qed

lemma cnExtract_nested_payload:
  "cnExtract (nested_payload t)
     = Inr ([JObj 4 [(ascii ''content'',
               JArr 5 [JObj 6 [(ascii ''items'', JArr 7 [JObj 8 [(ascii ''title'', JStr t)]])]])]],
            [JObj 8 [(ascii ''title'', JStr t)]],
            if 2 < length t \<and> length t < 100 then [JStr t] else [])"
  by (simp add: cnExtract_def nested_payload_def or_else_def elements_or_empty_def cnItems_def
      flatMapE_def nestedArrays_def container_keys_def unwrap_items pick_title heading_ok_def
      Let_def)


lemma requests_cleanExpiredCache [simp]: "requests (cleanExpiredCache E s) = requests s"
  by (simp add: cleanExpiredCache_def now_def next_tick_def)



lemma distinct_fallback: "distinct fallback"
  by (simp add: fallback_def)

lemma distinct_JStr_fallback: "distinct (map JStr fallback)"
  by (simp add: distinct_map distinct_fallback inj_on_def)

lemma length_slice0_eq: "0 \<le> e \<Longrightarrow> length (slice0 xs e) = min (nat \<lfloor>e\<rfloor>) (length xs)"
  by (simp add: slice0_nonneg min.commute)

lemma getLocalFallback_length:
  "0 \<le> n \<Longrightarrow> length (fst (getLocalFallback E n s)) = min (nat \<lfloor>n\<rfloor>) 30"
  by (simp add: getLocalFallback_eq length_slice0_eq length_shuffleArray length_fallback)

lemma getLocalFallback_distinct: "distinct (fst (getLocalFallback E n s))"
  by (simp add: getLocalFallback_eq distinct_slice0 distinct_shuffleArray distinct_JStr_fallback)

lemma fetchQueries_all_empty:
  assumes "fst (collect E cfg (sources cfg) [] s) = Inr []" and "1 \<le> cnt" and "cnt \<le> 200"
  shows "fst (fetchQueries E cfg cnt s)
           = Inr (fst (getLocalFallback E cnt (next_tick (snd (collect E cfg (sources cfg) [] s)))))"
proof -
  obtain s1 where c: "collect E cfg (sources cfg) [] s = (Inr [], s1)"
    using assms(1) by (cases "collect E cfg (sources cfg) [] s") auto
  have vc: "max 1 (min cnt 200) = cnt" using assms(2,3) by simp
  show ?thesis
    using fetchQueries_eq[OF c, of cnt] by (simp add: vc c)
qed

lemma fetchSource_local_fallback:
  "fetchSource E cfg (ascii ''local-fallback'') s
     = (Inr (fst (getLocalFallback E 20 s)), snd (getLocalFallback E 20 s))"
  by (simp add: fetchSource_def split: prod.splits)

lemma cleanExpiredCache_new_state:
  "cleanExpiredCache E new_state = \<lparr>cache = Map.empty, tick = 1, requests = [], log_calls = []\<rparr>"
  by (simp add: cleanExpiredCache_def now_def new_state_def next_tick_def)

lemma getFromSource_local_fallback_new:
  "fst (getFromSource E cfg (ascii ''local-fallback'') new_state)
     = Inr (take 20 (shuffleArray (shuffle_picks E 1) (map JStr fallback)))"
proof -
  let ?s1 = "\<lparr>cache = Map.empty, tick = 1, requests = [], log_calls = []\<rparr>"
  have ne: "fst (getLocalFallback E 20 ?s1) \<noteq> []"
    by (rule getLocalFallback_nonempty) simp
  have "fst (refresh E cfg (ascii ''local-fallback'') ?s1) = Inr (fst (getLocalFallback E 20 ?s1))"
    using refresh_eq[OF fetchSource_local_fallback, of E cfg ?s1] ne by simp
  then show ?thesis
    by (simp add: getFromSource_eq cleanExpiredCache_new_state getLocalFallback_eq slice0_nonneg)
qed

lemma set_insertions_distinct:
  "distinct xs \<Longrightarrow> set xs \<inter> set seen = {} \<Longrightarrow> set_insertions seen xs = xs"
  by (induction xs arbitrary: seen) auto

lemma array_from_set_distinct: "distinct xs \<Longrightarrow> array_from_set xs = xs"
  by (simp add: array_from_set_def set_insertions_distinct)

lemma collect_fallback_only:
  "fst (collect E (constructor (Some fallback_only_args))
          (sources (constructor (Some fallback_only_args))) [] new_state)
     = Inr (take 10 (shuffleArray (shuffle_picks E 1) (map JStr fallback)))"
proof -
  let ?cfg = "constructor (Some fallback_only_args)"
  obtain r s1 where g: "getFromSource E ?cfg (ascii ''local-fallback'') new_state = (r, s1)"
    by (cases "getFromSource E ?cfg (ascii ''local-fallback'') new_state")
  with getFromSource_local_fallback_new[of E ?cfg]
  have g': "getFromSource E ?cfg (ascii ''local-fallback'') new_state
              = (Inr (take 20 (shuffleArray (shuffle_picks E 1) (map JStr fallback))), s1)"
    by simp
  have src: "sources ?cfg = [ascii ''local-fallback'']"
    by (simp add: constructor_def fallback_only_args_def)
  have mq: "maxQueriesPerSource ?cfg = 10"
    by (simp add: constructor_def fallback_only_args_def)
  show ?thesis
    unfolding src collect_step[OF g'] by (simp add: mq slice0_nonneg)
qed

lemma preShuffle_fallback_only:
  "distinct allQueries \<Longrightarrow>
   preShuffle (constructor (Some fallback_only_args)) vc allQueries = allQueries"
  by (simp add: preShuffle_def constructor_def fallback_only_args_def array_from_set_distinct)

lemma fetchQueries_fallback_only:
  assumes "1 \<le> cnt" and "cnt \<le> 200"
  shows "\<exists>p. fst (fetchQueries E (constructor (Some fallback_only_args)) cnt new_state)
           = Inr (take (nat \<lfloor>cnt\<rfloor>) (shuffleArray p
                    (take 10 (shuffleArray (shuffle_picks E 1) (map JStr fallback)))))"
proof -
  let ?cfg = "constructor (Some fallback_only_args)"
  let ?all = "take 10 (shuffleArray (shuffle_picks E 1) (map JStr fallback))"
  obtain s1 where c: "collect E ?cfg (sources ?cfg) [] new_state = (Inr ?all, s1)"
    using collect_fallback_only[of E] by (cases "collect E ?cfg (sources ?cfg) [] new_state") auto
  have vc: "max 1 (min cnt 200) = cnt" using assms by simp
  have d: "distinct ?all" by (simp add: distinct_shuffleArray distinct_JStr_fallback)
  have ne: "?all \<noteq> []"
    by (simp add: shuffleArray_eq_Nil fallback_def)
  have fl: "1 \<le> \<lfloor>cnt\<rfloor>" using assms(1) by linarith
  have pre: "preShuffle ?cfg cnt ?all = ?all" using d by (rule preShuffle_fallback_only)
  have n: "slice0 (shuffleArray (shuffle_picks E (tick s1)) ?all) cnt \<noteq> []"
    using assms(1) ne by (simp add: slice0_eq_Nil shuffleArray_eq_Nil)
  note eq = fetchQueries_eq[OF c, of cnt, unfolded vc Let_def pre]
  have "fst (fetchQueries E ?cfg cnt new_state)
               = Inr (slice0 (shuffleArray (shuffle_picks E (tick s1)) ?all) cnt)"
    unfolding eq using n by simp
  moreover have "0 \<le> cnt" using assms(1) by simp
  ultimately show ?thesis by (auto simp: slice0_nonneg)
qed

lemma div_unique_int: "0 < (b::int) \<Longrightarrow> q * b \<le> a \<Longrightarrow> a < q * b + b \<Longrightarrow> a div b = q"
  by (rule int_div_pos_eq[of a b q "a - q * b"]) (simp_all add: algebra_simps)

lemma div_bounds_int:
  assumes "0 < (b::int)"
  shows "a div b * b \<le> a \<and> a < a div b * b + b"
proof -
  have "a = a div b * b + a mod b" by simp
  moreover have "0 \<le> a mod b" "a mod b < b" using assms by simp_all
  ultimately show ?thesis by linarith
qed

lemma interleaveLoop_take:
  assumes cs: "1 \<le> cs" and t: "all_truthy qs" and len: "int (length qs) \<le> int n * cs"
  shows "i \<le> length qs \<Longrightarrow> (i < length qs \<Longrightarrow> int si = int i div cs) \<Longrightarrow>
         interleaveLoop cs n qs tc i si (take i qs)
           = take (max i (min (length qs) (nat \<lceil>tc\<rceil>))) qs"
proof (induction "length qs - i" arbitrary: i si)
  case 0
  then have "i = length qs" by simp
  then show ?case by (subst interleaveLoop.simps) simp
next
  case (Suc k)
  then have i: "i < length qs" by simp
  with Suc.prems have si: "int si = int i div cs" by simp
  show ?case
  proof (cases "of_nat (length (take i qs)) < tc")
    case False
    then have "\<not> of_nat i < tc" using i by simp
    then have "\<lceil>tc\<rceil> \<le> int i" by (simp add: ceiling_le_iff)
    then have "nat \<lceil>tc\<rceil> \<le> i" by simp
    then have "max i (min (length qs) (nat \<lceil>tc\<rceil>)) = i" by simp
    with False show ?thesis by (subst interleaveLoop.simps) simp
  next
    case True
    then have lt: "of_nat i < tc" using i by simp
    then have "int i < \<lceil>tc\<rceil>" by (simp add: less_ceiling_iff)
    then have ic: "Suc i \<le> nat \<lceil>tc\<rceil>" by simp
    have lo: "int si * cs \<le> int i" and hi: "int i < int si * cs + cs"
      using cs si div_bounds_int[of cs "int i"] by simp_all
    let ?si = "if int i = int si * cs + cs - 1 then (si + 1) mod n else si"
    have tq: "truthy (qs ! i)" using t i by (simp add: all_truthy_def)
    have step: "interleaveLoop cs n qs tc i si (take i qs)
                  = interleaveLoop cs n qs tc (Suc i) ?si (take (Suc i) qs)"
      using i True tq lo hi
      by (subst interleaveLoop.simps) (simp add: Let_def take_Suc_conv_app_nth)
    have next_si: "int ?si = int (Suc i) div cs" if l: "Suc i < length qs"
    proof (cases "int i = int si * cs + cs - 1")
      case True
      then have e: "int (Suc i) = (int si + 1) * cs" by (simp add: algebra_simps)
      then have d: "int (Suc i) div cs = int si + 1" using cs by simp
      from e l len have "(int si + 1) * cs < int n * cs" by linarith
      then have "int si + 1 < int n" using cs by (simp add: mult_less_cancel_right)
      then have "(si + 1) mod n = si + 1" by simp
      with True d show ?thesis by simp
    next
      case False
      with hi have "int (Suc i) < int si * cs + cs" by simp
      moreover from lo have "int si * cs \<le> int (Suc i)" by simp
      ultimately have "int (Suc i) div cs = int si" using cs by (intro div_unique_int) simp_all
      with False show ?thesis by simp
    qed
    have "interleaveLoop cs n qs tc (Suc i) ?si (take (Suc i) qs)
            = take (max (Suc i) (min (length qs) (nat \<lceil>tc\<rceil>))) qs"
      using Suc.hyps(2) i next_si by (intro Suc.hyps(1)) auto
    moreover have "max (Suc i) (min (length qs) (nat \<lceil>tc\<rceil>)) = max i (min (length qs) (nat \<lceil>tc\<rceil>))"
      using i ic by simp
    ultimately show ?thesis using step by simp
  qed
qed

lemma interleaveQueries_eq_slice0:
  assumes mq: "1 \<le> maxQueriesPerSource cfg" and t: "all_truthy qs"
    and len: "length qs \<le> length (sources cfg) * nat \<lceil>maxQueriesPerSource cfg\<rceil>"
    and tc: "0 \<le> tc"
  shows "interleaveQueries cfg qs tc = slice0 qs tc"
proof (cases "length (sources cfg) = 0 \<or> qs = []")
  case True
  then show ?thesis by (simp add: interleaveQueries_def Let_def)
next
  case False
  let ?cs = "\<lceil>maxQueriesPerSource cfg\<rceil>"
  let ?n = "length (sources cfg)"
  have cs: "1 \<le> ?cs" using mq by linarith
  have "int (length qs) \<le> int (?n * nat ?cs)" using len zle_int by blast
  moreover have "int (nat ?cs) = ?cs" using cs by simp
  ultimately have len': "int (length qs) \<le> int ?n * ?cs" by (simp only: of_nat_mult)
  have "interleaveLoop ?cs ?n qs tc 0 0 (take 0 qs)
          = take (max 0 (min (length qs) (nat \<lceil>tc\<rceil>))) qs"
    using cs by (intro interleaveLoop_take[OF cs t len']) simp_all
  then have loop: "interleaveLoop ?cs ?n qs tc 0 0 [] = take (min (length qs) (nat \<lceil>tc\<rceil>)) qs"
    by simp
  have "nat \<lfloor>tc\<rfloor> \<le> nat \<lceil>tc\<rceil>" by (rule nat_mono[OF floor_le_ceiling])
  then have h: "min (nat \<lfloor>tc\<rfloor>) (min (length qs) (nat \<lceil>tc\<rceil>)) = min (nat \<lfloor>tc\<rfloor>) (length qs)"
    by linarith
  have "take (nat \<lfloor>tc\<rfloor>) (take (min (length qs) (nat \<lceil>tc\<rceil>)) qs)
          = take (min (nat \<lfloor>tc\<rfloor>) (min (length qs) (nat \<lceil>tc\<rceil>))) qs"
    by (simp only: take_take)
  also have "\<dots> = take (min (nat \<lfloor>tc\<rfloor>) (length qs)) qs" by (simp only: h)
  also have "\<dots> = take (nat \<lfloor>tc\<rfloor>) qs" by (simp add: min_def)
  finally have "take (nat \<lfloor>tc\<rfloor>) (take (min (length qs) (nat \<lceil>tc\<rceil>)) qs)
                  = take (nat \<lfloor>tc\<rfloor>) qs" .
  with False loop tc show ?thesis
    by (simp add: interleaveQueries_def Let_def slice0_nonneg)
qed

lemma length_array_from_set: "length (array_from_set xs) \<le> length xs"
  using subseq_array_from_set[of xs] by (rule list_emb_length)

lemma all_truthy_array_from_set: "all_truthy (array_from_set xs) = all_truthy xs"
  by (simp add: all_truthy_def)

lemma shuffleArray_no_picks: "shuffleArray [] xs = xs"
  by (cases xs) simp_all

lemma fallback_not_Nil: "fallback \<noteq> []"
  by (simp add: fallback_def)

lemma collect_offline_default:
  "fst (collect offline (constructor None) (sources (constructor None)) [] new_state)
     = Inr (take 10 (map JStr fallback))"
  by (simp add: constructor_def getFromSource_def cleanExpiredCache_def
      now_def new_state_def refresh_def fetchSource_def
      fetchGoogleTrends_def fetchGoogleTrends_try_def fetchReddit_def fetchReddit_try_def random_def fetchHttp_def offline_def Let_def
      next_tick_def log_msg_def build_request_def getLocalFallback_def shuffle_def
      shuffleArray_no_picks fallback_not_Nil slice0_def trunc_def)

lemma fetchQueries_fallback_props:
  assumes "fst (collect E cfg (sources cfg) [] s) = Inr []" and "1 \<le> cnt" and "cnt \<le> 200"
  shows "\<exists>qs. fst (fetchQueries E cfg cnt s) = Inr qs
           \<and> length qs = min (nat \<lfloor>cnt\<rfloor>) 30 \<and> set qs \<subseteq> JStr ` set fallback \<and> distinct qs"
proof -
  let ?s = "next_tick (snd (collect E cfg (sources cfg) [] s))"
  have "0 \<le> cnt" using assms(2) by simp
  then have "length (fst (getLocalFallback E cnt ?s)) = min (nat \<lfloor>cnt\<rfloor>) 30"
    by (rule getLocalFallback_length)
  with fetchQueries_all_empty[OF assms] getLocalFallback_subset[of E cnt ?s]
    getLocalFallback_distinct[of E cnt ?s]
  show ?thesis by simp
qed

lemma requests_fetchHttp:
  "requests (snd (fetchHttp E u c s)) = requests s @ [build_request u c]"
  by (simp add: fetchHttp_def Let_def next_tick_def log_msg_def split: sum.splits json.splits)

lemma outside_grows: "outside s s' \<Longrightarrow> length (requests s) \<le> length (requests s')"
  by (auto simp: outside_def dest: prefix_length_le)

lemma outside_after_andThen:
  assumes "\<And>x s1. outside s1 (snd (f x s1))"
  shows "outside (snd m) (snd (andThen m f))"
proof (cases m)
  case (Pair r s1)
  then show ?thesis using assms by (cases r) auto
qed

lemma outside_after_try_catch:
  assumes "\<And>e s1. outside s1 (snd (h e s1))"
  shows "outside (snd m) (snd (try_catch m h))"
proof (cases m)
  case (Pair r s1)
  then show ?thesis using assms by (cases r) auto
qed

lemma fetch_first_grows:
  assumes "outside (snd (fetchHttp E u c s0)) s'" "outside s s0"
  shows "length (requests s) < length (requests s')"
  using outside_grows[OF assms(1)] outside_grows[OF assms(2)] requests_fetchHttp[of E u c s0]
  by simp

lemma grows_fetchGoogleTrends:
  "length (requests s) < length (requests (snd (fetchGoogleTrends E s)))"
  unfolding fetchGoogleTrends_def fetchGoogleTrends_try_def
  apply (rule fetch_first_grows[OF _ outside_refl])
  apply (rule outside_trans[OF outside_after_andThen outside_after_try_catch])
   apply (intro outside_andThen outside_parse)
   apply simp_all
  done

lemma grows_fetchReddit:
  "length (requests s) < length (requests (snd (fetchReddit E s)))"
proof -
  obtain r s0 where r: "random E s = (r, s0)" by (cases "random E s")
  have o: "outside s s0" using outside_random[of s E] r by simp
  show ?thesis
    unfolding fetchReddit_def fetchReddit_try_def r prod.case
    apply (rule fetch_first_grows[OF _ o])
    apply (rule outside_trans[OF outside_after_andThen outside_after_try_catch])
     apply (intro outside_andThen outside_parse)
     apply simp_all
    done
qed

lemma grows_fetchNewsFallback:
  "length (requests s) < length (requests (snd (fetchNewsFallback E s)))"
  unfolding fetchNewsFallback_def fetchNewsFallback_try_def
  apply (rule fetch_first_grows[OF _ outside_refl])
  apply (rule outside_trans[OF outside_after_andThen outside_after_try_catch])
   apply simp_all
  done

lemma grows_fetchNews:
  "length (requests s) < length (requests (snd (fetchNews E s)))"
proof (cases "NEWS_API_KEY E = None \<or> NEWS_API_KEY E = Some []")
  case True
  then show ?thesis using grows_fetchNewsFallback[of s E] by (auto simp: fetchNews_def fetchNews_try_def)
next
  case False
  then obtain apiKey where k: "NEWS_API_KEY E = Some apiKey" "apiKey \<noteq> []" by auto
  show ?thesis
    unfolding fetchNews_def fetchNews_try_def k option.case using k(2)
    apply simp
    apply (rule fetch_first_grows[OF _ outside_refl])
    apply (rule outside_trans[OF outside_after_andThen outside_after_try_catch])
     apply (intro outside_andThen outside_parse)
     apply (simp_all add: outside_fetchNewsFallback)
    done
qed

lemma grows_fetchWikipedia:
  "length (requests s) < length (requests (snd (fetchWikipedia E s)))"
  unfolding fetchWikipedia_def fetchWikipedia_try_def
  apply (rule fetch_first_grows[OF _ outside_refl])
  apply (rule outside_trans[OF outside_after_andThen outside_after_try_catch])
   apply (intro outside_andThen outside_parse)
   apply simp_all
  done

lemma outside_after_first_endpoint:
  "outside (snd (fetchHttp E e cn_json_options s)) (snd (tryEndpoints E cfg (e # rest) s))"
  unfolding tryEndpoints.simps
  apply (rule outside_after_andThen)
  apply (intro outside_andThen outside_extractCnNewsFromJson)
  apply (simp add: outside_tryEndpoints)
  done

lemma grows_fetchCnNews:
  "length (requests s) < length (requests (snd (fetchCnNews E cfg s)))"
proof -
  have "outside (snd (tryEndpoints E cfg endpoints s)) (snd (fetchCnNews E cfg s))"
    unfolding fetchCnNews_def fetchCnNews_try_def
    apply (rule outside_trans[OF outside_after_andThen outside_after_try_catch])
     apply (auto split: option.splits simp: outside_log_msg Let_def
        intro!: outside_andThen outside_fetchHttp)
    done
  from outside_trans[OF outside_after_first_endpoint this[unfolded endpoints_def]]
  show ?thesis
    unfolding endpoints_def by (rule fetch_first_grows) simp
qed

lemma grows_fetchSource:
  "src \<in> set remote_sources \<Longrightarrow>
   length (requests s) < length (requests (snd (fetchSource E cfg src s)))"
  using grows_fetchGoogleTrends[of s E] grows_fetchReddit[of s E] grows_fetchNews[of s E]
    grows_fetchCnNews[of s E cfg] grows_fetchWikipedia[of s E]
  by (auto simp: remote_sources_def fetchSource_def)

lemma requests_refresh:
  "requests (snd (refresh E cfg src s)) = requests (snd (fetchSource E cfg src s))"
proof -
  obtain r s1 where f: "fetchSource E cfg src s = (r, s1)" by (cases "fetchSource E cfg src s")
  with returns_fetchSource[of E cfg src s] obtain qs where r: "r = Inr qs"
    by (auto simp: returns_def)
  show ?thesis
    using refresh_eq[OF f[unfolded r]] f by (simp add: log_msg_def next_tick_def)
qed

lemma cache_cleanExpiredCache:
  "cache (cleanExpiredCache E s) k =
     (case cache s k of
        None \<Rightarrow> None
      | Some v \<Rightarrow> if expires v \<le> of_int (Date_now E (tick s)) then None else Some v)"
  by (simp add: cleanExpiredCache_def now_def next_tick_def)

lemma tick_cleanExpiredCache: "tick (cleanExpiredCache E s) = Suc (tick s)"
  by (simp add: cleanExpiredCache_def now_def next_tick_def)

lemma evicted:
  "cache (cleanExpiredCache E s) k = Some e \<Longrightarrow> of_int (Date_now E (tick s)) < expires e"
  by (auto simp: cache_cleanExpiredCache split: option.splits if_splits)

lemma getFromSource_hit:
  assumes "cache s src = Some e" "of_int (Date_now E (tick s)) < expires e"
    "of_int (Date_now E (Suc (tick s))) < expires e"
  shows "getFromSource E cfg src s = (Inr (queries e), next_tick (cleanExpiredCache E s))"
  using assms by (simp add: getFromSource_eq cache_cleanExpiredCache tick_cleanExpiredCache)

lemma getFromSource_stale:
  assumes "cache s src = Some e"
    "expires e \<le> of_int (Date_now E (tick s)) \<or> expires e \<le> of_int (Date_now E (Suc (tick s)))"
  shows "\<exists>s0. getFromSource E cfg src s = refresh E cfg src s0 \<and> requests s0 = requests s"
proof (cases "expires e \<le> of_int (Date_now E (tick s))")
  case True
  with assms(1) have "getFromSource E cfg src s = refresh E cfg src (cleanExpiredCache E s)"
    by (simp add: getFromSource_eq cache_cleanExpiredCache)
  then show ?thesis by (intro exI[of _ "cleanExpiredCache E s"]) simp
next
  case False
  with assms have "getFromSource E cfg src s = refresh E cfg src (next_tick (cleanExpiredCache E s))"
    by (simp add: getFromSource_eq cache_cleanExpiredCache tick_cleanExpiredCache)
  then show ?thesis
    by (intro exI[of _ "next_tick (cleanExpiredCache E s)"]) (simp add: next_tick_def)
qed

lemma getFromSource_absent:
  "cache s src = None \<Longrightarrow> getFromSource E cfg src s = refresh E cfg src (cleanExpiredCache E s)"
  by (simp add: getFromSource_eq cache_cleanExpiredCache)

lemma refresh_caches:
  assumes "refresh E cfg src s0 = (Inr qs, s1)" "qs \<noteq> []"
  shows "cache s1 src = Some \<lparr>queries = qs,
           expires = num_add E (of_int (Date_now E (tick s1 - 1))) (num_mul E (cacheMinutes cfg) 60000)\<rparr>"
proof -
  obtain r sf where f: "fetchSource E cfg src s0 = (r, sf)" by (cases "fetchSource E cfg src s0")
  with returns_fetchSource[of E cfg src s0] obtain found where r: "r = Inr found"
    by (auto simp: returns_def)
  from refresh_eq[OF f[unfolded r]] assms show ?thesis
    by (auto simp: next_tick_def split: if_splits)
qed

lemma stale_refetches:
  assumes "cache s src = Some e"
    "expires e \<le> of_int (Date_now E (tick s)) \<or> expires e \<le> of_int (Date_now E (Suc (tick s)))"
    "src \<in> set remote_sources"
  shows "length (requests s) < length (requests (snd (getFromSource E cfg src s)))"
proof -
  from getFromSource_stale[OF assms(1,2)] obtain s0
    where g: "getFromSource E cfg src s = refresh E cfg src s0" and r: "requests s0 = requests s"
    by blast
  from grows_fetchSource[OF assms(3), of s0 E cfg] show ?thesis
    by (simp add: g requests_refresh r)
qed

lemma cnExtract_empty_object: "cnExtract (JObj 0 []) = Inr ([], [], [])"
  by (simp add: cnExtract_def or_else_def elements_or_empty_def cnItems_def flatMapE_def)

lemma first_cn_lookup:
  "fst (getFromSource late_answer_env (only ''cn-news'') (ascii ''cn-news'') new_state)
     = Inr [JStr [31034, 20363, 35789]]"
  "length (requests (snd (getFromSource late_answer_env (only ''cn-news'') (ascii ''cn-news'')
      new_state))) = 2"
  "tick (snd (getFromSource late_answer_env (only ''cn-news'') (ascii ''cn-news'') new_state)) = 6"
  by (simp_all add: getFromSource_def cleanExpiredCache_def now_def new_state_def refresh_def
      fetchSource_def fetchCnNews_def fetchCnNews_try_def endpoints_def extractCnNewsFromJson_def parse_def
      fetchHttp_def late_answer_env_def serving_def offline_def only_def constructor_def
      cnExtract_empty_object cnExtract_nested_payload Let_def next_tick_def log_msg_def
      slice0_def trunc_def build_request_def)

lemma cacheMinutes_only: "cacheMinutes (only src) = 30"
  by (simp add: only_def constructor_def)

lemma Date_now_late: "Date_now late_answer_env t = int t"
  by (simp add: late_answer_env_def serving_def offline_def)

lemma arith_late:
  "num_add late_answer_env a b = a + b" "num_mul late_answer_env a b = a * b"
  by (simp_all add: late_answer_env_def serving_def offline_def)

lemma first_cn_refresh:
  "refresh late_answer_env (only ''cn-news'') (ascii ''cn-news'')
     (cleanExpiredCache late_answer_env new_state)
     = (Inr [JStr [31034, 20363, 35789]],
        snd (getFromSource late_answer_env (only ''cn-news'') (ascii ''cn-news'') new_state))"
proof -
  have "getFromSource late_answer_env (only ''cn-news'') (ascii ''cn-news'') new_state
          = refresh late_answer_env (only ''cn-news'') (ascii ''cn-news'')
              (cleanExpiredCache late_answer_env new_state)"
    by (rule getFromSource_absent) (simp add: new_state_def)
  then show ?thesis
    using first_cn_lookup(1) by (simp add: prod_eq_iff)
qed

lemma second_cn_lookup:
  "fst (getFromSource late_answer_env (only ''cn-news'') (ascii ''cn-news'')
          (snd (getFromSource late_answer_env (only ''cn-news'') (ascii ''cn-news'') new_state)))
     = Inr [JStr [31034, 20363, 35789]]
   \<and> requests (snd (getFromSource late_answer_env (only ''cn-news'') (ascii ''cn-news'')
          (snd (getFromSource late_answer_env (only ''cn-news'') (ascii ''cn-news'') new_state))))
     = requests (snd (getFromSource late_answer_env (only ''cn-news'') (ascii ''cn-news'')
          new_state))"
proof -
  let ?E = late_answer_env
  let ?cfg = "only ''cn-news''"
  let ?src = "ascii ''cn-news''"
  let ?s1 = "snd (getFromSource ?E ?cfg ?src new_state)"
  let ?qs = "[JStr [31034, 20363, 35789]]"
  from refresh_caches[OF first_cn_refresh] have c: "cache ?s1 ?src = Some \<lparr>queries = ?qs,
           expires = num_add ?E (of_int (Date_now ?E (tick ?s1 - 1))) (num_mul ?E (cacheMinutes ?cfg) 60000)\<rparr>"
    by simp
  have "getFromSource ?E ?cfg ?src ?s1 = (Inr ?qs, next_tick (cleanExpiredCache ?E ?s1))"
    using getFromSource_hit[OF c, of ?E ?cfg]
    by (simp add: first_cn_lookup(3) Date_now_late cacheMinutes_only arith_late)
  then show ?thesis by (simp add: next_tick_def)
qed

lemma cached_state_simps:
  "cache (cached_state x) (ascii ''google-trends'')
     = Some \<lparr>queries = [JStr (ascii ''solar eclipse'')], expires = x\<rparr>"
  "tick (cached_state x) = 0" "requests (cached_state x) = []"
  by (simp_all add: cached_state_def new_state_def)

lemma Date_now_offline: "Date_now offline t = int t"
  by (simp add: offline_def)

lemma google_remote: "ascii ''google-trends'' \<in> set remote_sources"
  by (simp add: remote_sources_def)

lemma prefix_ascii: "prefix a b \<Longrightarrow> prefix (ascii a) (ascii b)"
  unfolding ascii_def by (rule map_mono_prefix)

lemma url_build_request [simp]: "url (build_request u c) = u"
  by (simp add: build_request_def)

lemma getFromSource_total: "\<exists>qs s'. getFromSource E cfg src s = (Inr qs, s')"
proof -
  have r: "\<exists>qs s'. refresh E cfg src s0 = (Inr qs, s')" for s0
  proof -
    obtain x s1 where f: "fetchSource E cfg src s0 = (x, s1)" by (cases "fetchSource E cfg src s0")
    with returns_fetchSource[of E cfg src s0] obtain qs where "x = Inr qs"
      by (auto simp: returns_def)
    with refresh_eq[OF f[unfolded this]] show ?thesis by (cases "qs = []") simp_all
  qed
  show ?thesis
    using r[of "cleanExpiredCache E s"] r[of "next_tick (cleanExpiredCache E s)"]
    by (auto simp: getFromSource_eq split: option.splits)
qed

lemma collect_acc:
  "\<exists>b s'. collect E cfg srcs [] s = (Inr b, s') \<and> collect E cfg srcs acc s = (Inr (acc @ b), s')"
proof (induction srcs arbitrary: acc s)
  case Nil
  then show ?case by simp
next
  case (Cons src srcs)
  from getFromSource_total[of E cfg src s]
  obtain found s1 where g: "getFromSource E cfg src s = (Inr found, s1)" by blast
  let ?c = "slice0 found (maxQueriesPerSource cfg)"
  from Cons[of s1 ?c] obtain b s' where 1: "collect E cfg srcs [] s1 = (Inr b, s')"
    and 2: "collect E cfg srcs ?c s1 = (Inr (?c @ b), s')" by blast
  from Cons[of s1 "acc @ ?c"] 1 have 3: "collect E cfg srcs (acc @ ?c) s1 = (Inr ((acc @ ?c) @ b), s')"
    by auto
  show ?case
    unfolding collect_step[OF g] using 2 3 by simp
qed

lemma collect_append:
  "collect E cfg (xs @ ys) acc s = andThen (collect E cfg xs acc s) (collect E cfg ys)"
proof (induction xs arbitrary: acc s)
  case Nil
  then show ?case by simp
next
  case (Cons x xs)
  from getFromSource_total[of E cfg x s]
  obtain found s1 where g: "getFromSource E cfg x s = (Inr found, s1)" by blast
  show ?case
    using Cons by (simp only: append_Cons collect_step[OF g])
qed

lemma fetchQueries_total: "\<exists>qs s'. fetchQueries E cfg cnt s = (Inr qs, s')"
proof -
  from collect_acc[of E cfg "sources cfg" s "[]"]
  obtain b s1 where c: "collect E cfg (sources cfg) [] s = (Inr b, s1)" by blast
  show ?thesis
    unfolding fetchQueries_eq[OF c] by (simp add: Let_def)
qed

lemma try_catch_throws:
  "throws m \<Longrightarrow> try_catch m h = h (projl (fst m)) (snd m)"
  by (cases m; cases "fst m") (auto simp: throws_def)

lemma fetch_throws_fetchSource:
  assumes "fetch_throws E cfg src s"
  shows "\<exists>s'. fetchSource E cfg src s = (Inr [], s')"
  using assms
  unfolding fetch_throws_def
  by (auto simp: fetchSource_def fetchGoogleTrends_def fetchReddit_def fetchWikipedia_def
      fetchCnNews_def fetchNews_def fetchNewsFallback_def try_catch_throws
      split: option.splits if_splits)

lemma getFromSource_throws:
  assumes "cache (cleanExpiredCache E s) src = None"
    and "fetch_throws E cfg src (cleanExpiredCache E s)"
  shows "\<exists>s'. getFromSource E cfg src s = (Inr [], s') \<and> cache s' = cache (cleanExpiredCache E s)"
proof -
  let ?s0 = "cleanExpiredCache E s"
  from fetch_throws_fetchSource[OF assms(2)]
  obtain s1 where f: "fetchSource E cfg src ?s0 = (Inr [], s1)" by blast
  have c: "cache s1 = cache ?s0"
    using outside_fetchSource[of ?s0 E cfg src] f by (simp add: outside_def)
  show ?thesis
    using refresh_eq[OF f] c assms(1) by (simp add: getFromSource_eq)
qed

lemma collect_contributions:
  "collect E cfg srcs acc s
     = (Inr (acc @ concat (fst (contributions E cfg srcs s))), snd (contributions E cfg srcs s))"
proof (induction srcs arbitrary: acc s)
  case Nil
  then show ?case by simp
next
  case (Cons src srcs)
  obtain r s1 where g: "getFromSource E cfg src s = (r, s1)" by (cases "getFromSource E cfg src s")
  show ?case
  proof (cases r)
    case (Inl error)
    then show ?thesis using g Cons by (simp split: prod.splits)
  next
    case (Inr found)
    then show ?thesis using g Cons by (simp split: prod.splits)
  qed
qed

lemma contributions_append:
  "contributions E cfg (xs @ ys) s =
     (case contributions E cfg xs s of
        (as, s1) \<Rightarrow> (case contributions E cfg ys s1 of (bs, s2) \<Rightarrow> (as @ bs, s2)))"
proof (induction xs arbitrary: s)
  case Nil
  then show ?case by (simp split: prod.splits)
next
  case (Cons x xs)
  obtain r s1 where g: "getFromSource E cfg x s = (r, s1)" by (cases "getFromSource E cfg x s")
  show ?case
    using g Cons by (cases r) (simp_all split: prod.splits)
qed

lemma contributions_step:
  "getFromSource E cfg src s = (Inr found, s1) \<Longrightarrow>
   contributions E cfg (src # rest) s =
     (slice0 found (maxQueriesPerSource cfg) # fst (contributions E cfg rest s1),
      snd (contributions E cfg rest s1))"
  by (simp split: prod.splits)

lemma fetchQueries_nonempty: "fst (fetchQueries E cfg cnt s) \<noteq> Inr []"
proof -
  from collect_acc[of E cfg "sources cfg" s "[]"]
  obtain b s1 where c: "collect E cfg (sources cfg) [] s = (Inr b, s1)" by blast
  have "(1::rat) \<le> max 1 (min cnt 200)" by simp
  from getLocalFallback_nonempty[OF this] show ?thesis
    unfolding fetchQueries_eq[OF c] by (simp add: Let_def)
qed

lemma sources_trends_and_reddit:
  "sources trends_and_reddit = [] @ ascii ''google-trends'' # [ascii ''reddit'']"
  by (simp add: trends_and_reddit_def constructor_def)

lemma mixed_env_throws:
  "fetch_throws mixed_env trends_and_reddit (ascii ''google-trends'')
     (cleanExpiredCache mixed_env new_state)"
  by (simp add: fetch_throws_def throws_def fetchGoogleTrends_try_def fetchHttp_def parse_def
      mixed_env_def serving_def offline_def build_request_def hijack_prefix_def ascii_def
      cleanExpiredCache_def now_def new_state_def next_tick_def Let_def)

lemma mixed_env_collect:
  "fst (collect mixed_env trends_and_reddit (sources trends_and_reddit) [] new_state)
     = Inr [JStr (ascii ''Solar eclipse visible tonight'')]"
  by (simp add: trends_and_reddit_def constructor_def getFromSource_def cleanExpiredCache_def
      now_def new_state_def refresh_def fetchSource_def random_def randomSub_def subreddits_def
      fetchGoogleTrends_def fetchGoogleTrends_try_def fetchReddit_def fetchReddit_try_def
      fetchHttp_def parse_def mixed_env_def serving_def offline_def Let_def
      next_tick_def log_msg_def build_request_def hijack_prefix_def
      redditTitles_def reddit_listing_def iterate_or_empty_def flatMapE_def title_ok_def
      js_gt_def js_lt_def slice0_def trunc_def ascii_def)

lemma mixed_env_fetchQueries:
  "fst (fetchQueries mixed_env trends_and_reddit 5 new_state)
     = Inr [JStr (ascii ''Solar eclipse visible tonight'')]"
proof -
  let ?t = "JStr (ascii ''Solar eclipse visible tonight'')"
  obtain s1 where c: "collect mixed_env trends_and_reddit (sources trends_and_reddit) [] new_state
     = (Inr [?t], s1)"
    using mixed_env_collect
    by (cases "collect mixed_env trends_and_reddit (sources trends_and_reddit) [] new_state") simp
  have p: "shuffle_picks mixed_env t = []" for t
    by (simp add: mixed_env_def serving_def offline_def)
  have i: "interleaveQueries trends_and_reddit [?t] 5 = slice0 [?t] 5"
    by (rule interleaveQueries_eq_slice0)
      (simp_all add: trends_and_reddit_def constructor_def all_truthy_def ascii_def)
  have "preShuffle trends_and_reddit 5 [?t] = [?t]"
    by (simp add: preShuffle_def Let_def array_from_set_def i slice0_def trunc_def)
  then show ?thesis
    unfolding fetchQueries_eq[OF c]
    by (simp add: Let_def p shuffleArray_no_picks slice0_def trunc_def)
qed

lemma requests_parse [simp]: "requests (snd (parse E t s)) = requests s"
  by (simp add: parse_def next_tick_def)

lemma requests_random [simp]: "requests (snd (random E s)) = requests s"
  by (simp add: random_def next_tick_def)

lemma requests_log_msg [simp]: "requests (log_msg a b c s) = requests s"
  by (simp add: log_msg_def)

lemma requests_next_tick [simp]: "requests (next_tick s) = requests s"
  by (simp add: next_tick_def)

lemma issues_fetchHttp: "issues 1 s (fetchHttp E u c s)"
  by (simp add: issues_def requests_fetchHttp)

lemma issues_parse: "issues 0 s (parse E t s)"
  by (simp add: issues_def)

lemma issues_pure: "issues 0 s (r, s)"
  by (simp add: issues_def)

lemma issues_mono: "issues n s m \<Longrightarrow> n \<le> k \<Longrightarrow> issues k s m"
  by (simp add: issues_def)

lemma issues_andThen:
  assumes "issues a s m" and "\<And>x s1. issues b s1 (f x s1)"
  shows "issues (a + b) s (andThen m f)"
proof (cases m)
  case (Pair r s1)
  show ?thesis
  proof (cases r)
    case (Inl e)
    then show ?thesis using assms(1) Pair by (simp add: issues_def)
  next
    case (Inr x)
    then show ?thesis using assms(1) assms(2)[of s1 x] Pair by (simp add: issues_def)
  qed
qed

lemma issues_try_catch:
  assumes "issues a s m" and "\<And>e s1. issues b s1 (h e s1)"
  shows "issues (a + b) s (try_catch m h)"
proof (cases m)
  case (Pair r s1)
  show ?thesis
  proof (cases r)
    case (Inl e)
    then show ?thesis using assms(1) assms(2)[of s1 e] Pair by (simp add: issues_def)
  next
    case (Inr x)
    then show ?thesis using assms(1) Pair by (simp add: issues_def)
  qed
qed

lemma issues_fetchGoogleTrends: "issues 1 s (fetchGoogleTrends E s)"
proof -
  have "issues (1 + 0) s (fetchGoogleTrends_try E s)"
    unfolding fetchGoogleTrends_try_def
    by (intro issues_andThen[where a = 1 and b = 0] issues_fetchHttp
        issues_andThen[where a = 0 and b = 0, simplified] issues_parse issues_pure)
  then have "issues (1 + 0 + 0) s (fetchGoogleTrends E s)"
    unfolding fetchGoogleTrends_def by (intro issues_try_catch issues_pure) simp
  then show ?thesis by simp
qed

lemma issues_fetchReddit: "issues 1 s (fetchReddit E s)"
proof -
  obtain r s0 where r: "random E s = (r, s0)" by (cases "random E s")
  have q: "requests s0 = requests s" using requests_random[of E s] r by simp
  have "issues (1 + 0) s0 (fetchReddit_try E s)"
    unfolding fetchReddit_try_def r prod.case
    by (intro issues_andThen[where a = 1 and b = 0] issues_fetchHttp
        issues_andThen[where a = 0 and b = 0, simplified] issues_parse issues_pure)
  then have "issues (1 + 0 + 0) s0 (fetchReddit E s)"
    unfolding fetchReddit_def by (intro issues_try_catch issues_pure) simp
  then show ?thesis by (simp add: issues_def q)
qed

lemma issues_fetchWikipedia: "issues 1 s (fetchWikipedia E s)"
proof -
  have "issues (1 + 0) s (fetchWikipedia_try E s)"
    unfolding fetchWikipedia_try_def
    by (intro issues_andThen[where a = 1 and b = 0] issues_fetchHttp
        issues_andThen[where a = 0 and b = 0, simplified] issues_parse issues_pure)
  then have "issues (1 + 0 + 0) s (fetchWikipedia E s)"
    unfolding fetchWikipedia_def by (intro issues_try_catch issues_pure) simp
  then show ?thesis by simp
qed

lemma issues_fetchNewsFallback: "issues 1 s (fetchNewsFallback E s)"
proof -
  have "issues (1 + 0) s (fetchNewsFallback_try E s)"
    unfolding fetchNewsFallback_try_def
    by (intro issues_andThen[where a = 1 and b = 0] issues_fetchHttp issues_pure)
  then have "issues (1 + 0 + 0) s (fetchNewsFallback E s)"
    unfolding fetchNewsFallback_def by (intro issues_try_catch issues_pure) simp
  then show ?thesis by simp
qed

lemma issues_fetchNews: "issues 2 s (fetchNews E s)"
proof (cases "NEWS_API_KEY E = None \<or> NEWS_API_KEY E = Some []")
  case True
  then show ?thesis
    using issues_mono[OF issues_fetchNewsFallback[of s E], of 2] by (auto simp: fetchNews_def)
next
  case False
  then obtain apiKey where k: "NEWS_API_KEY E = Some apiKey" "apiKey \<noteq> []" by auto
  have "issues (1 + 0) s (fetchNews_try E apiKey s)"
    unfolding fetchNews_try_def
    by (intro issues_andThen[where a = 1 and b = 0] issues_fetchHttp
        issues_andThen[where a = 0 and b = 0, simplified] issues_parse issues_pure)
  then have "issues (1 + 0 + 1) s (try_catch (fetchNews_try E apiKey s)
       (\<lambda>error s'. fetchNewsFallback E s'))"
    by (intro issues_try_catch issues_fetchNewsFallback) simp
  then show ?thesis using k by (simp add: fetchNews_def numeral_2_eq_2)
qed

lemma requests_extractCnNewsFromJson [simp]:
  "requests (snd (extractCnNewsFromJson E t s)) = requests s"
  by (auto simp: extractCnNewsFromJson_def parse_def next_tick_def
      split: option.splits sum.splits prod.splits)

lemma issues_tryEndpoints: "issues (length es) s (tryEndpoints E cfg es s)"
proof (induction es arbitrary: s)
  case Nil
  then show ?case by (simp add: issues_def)
next
  case (Cons e es)
  have "issues (1 + length es) s (tryEndpoints E cfg (e # es) s)"
    unfolding tryEndpoints.simps
  proof (intro issues_andThen issues_fetchHttp)
    fix body s1
    obtain r s2 where x: "extractCnNewsFromJson E body s1 = (r, s2)"
      by (cases "extractCnNewsFromJson E body s1")
    have q: "requests s2 = requests s1"
      using requests_extractCnNewsFromJson[of E body s1] x by simp
    show "issues (length es) s1 (andThen (extractCnNewsFromJson E body s1) (\<lambda>found s2.
             if found \<noteq> [] then (Inr (Some (slice0 found (maxQueriesPerSource cfg))), s2)
             else tryEndpoints E cfg es s2))"
      using Cons[of s2] by (cases r) (auto simp: x issues_def q)
  qed
  then show ?case by simp
qed

lemma issues_fetchCnNews: "issues 3 s (fetchCnNews E cfg s)"
proof -
  have "issues (2 + 1) s (fetchCnNews_try E cfg s)"
    unfolding fetchCnNews_try_def
  proof (intro issues_andThen)
    have "length endpoints = 2" by (simp add: endpoints_def)
    with issues_tryEndpoints[of endpoints s E cfg]
    show "issues 2 s (tryEndpoints E cfg endpoints s)" by (simp only:)
  next
    fix early s1
    show "issues 1 s1 (case early of
         Some found \<Rightarrow> (Inr found, s1)
       | None \<Rightarrow>
           andThen (fetchHttp E (ascii ''https://top.baidu.com/board?tab=realtime'')
                      cn_html_options s1) (\<lambda>html s2.
             let htmlQueries = extractCnNewsFromHtml E html
             in (Inr (slice0 htmlQueries (maxQueriesPerSource cfg)),
                 if htmlQueries = []
                 then log_msg ''QUERY-DIVERSITY''
                        (ascii ''CN news returned no items from JSON or HTML sources'') Warn s2
                 else s2)))"
    proof (cases early)
      case None
      have "issues (1 + 0) s1 (andThen (fetchHttp E (ascii ''https://top.baidu.com/board?tab=realtime'')
                      cn_html_options s1) (\<lambda>html s2.
             let htmlQueries = extractCnNewsFromHtml E html
             in (Inr (slice0 htmlQueries (maxQueriesPerSource cfg)),
                 if htmlQueries = []
                 then log_msg ''QUERY-DIVERSITY''
                        (ascii ''CN news returned no items from JSON or HTML sources'') Warn s2
                 else s2)))"
        by (intro issues_andThen issues_fetchHttp) (simp add: issues_def Let_def)
      then show ?thesis using None by simp
    next
      case (Some found)
      then show ?thesis by (simp add: issues_def)
    qed
  qed
  then have "issues (2 + 1 + 0) s (fetchCnNews E cfg s)"
    unfolding fetchCnNews_def by (intro issues_try_catch) (simp_all add: issues_def)
  then show ?thesis by simp
qed

lemma requests_getLocalFallback [simp]: "requests (snd (getLocalFallback E n s)) = requests s"
  by (simp add: getLocalFallback_def shuffle_def)

lemma issues_fetchSource: "issues (max_requests src) s (fetchSource E cfg src s)"
proof -
  consider "src = ascii ''google-trends''" | "src = ascii ''reddit''" | "src = ascii ''news''"
    | "src = ascii ''cn-news''" | "src = ascii ''wikipedia''"
    | "src \<notin> set remote_sources"
    by (auto simp: remote_sources_def)
  then show ?thesis
  proof cases
    case 1
    then show ?thesis using issues_fetchGoogleTrends[of s E]
      by (simp add: fetchSource_def max_requests_def remote_sources_def)
  next
    case 2
    then show ?thesis using issues_fetchReddit[of s E]
      by (simp add: fetchSource_def max_requests_def remote_sources_def)
  next
    case 3
    then show ?thesis using issues_fetchNews[of s E]
      by (simp add: fetchSource_def max_requests_def remote_sources_def)
  next
    case 4
    then show ?thesis using issues_fetchCnNews[of s E cfg]
      by (simp add: fetchSource_def max_requests_def remote_sources_def)
  next
    case 5
    then show ?thesis using issues_fetchWikipedia[of s E]
      by (simp add: fetchSource_def max_requests_def remote_sources_def)
  next
    case 6
    then have "src \<noteq> ascii ''google-trends''" "src \<noteq> ascii ''reddit''" "src \<noteq> ascii ''news''"
      "src \<noteq> ascii ''cn-news''" "src \<noteq> ascii ''wikipedia''"
      by (auto simp: remote_sources_def)
    then show ?thesis using 6
      by (auto simp: fetchSource_def max_requests_def issues_def getLocalFallback_def
          shuffle_def split: prod.splits)
  qed
qed

lemma refresh_issues:
  "length (requests (snd (refresh E cfg src s))) \<le> length (requests s) + max_requests src"
  using issues_fetchSource[of src s E cfg] by (simp add: requests_refresh issues_def)

lemma getFromSource_issues:
  "length (requests (snd (getFromSource E cfg src s))) \<le> length (requests s) + max_requests src"
  using refresh_issues[of E cfg src "cleanExpiredCache E s"]
    refresh_issues[of E cfg src "next_tick (cleanExpiredCache E s)"]
  by (simp add: getFromSource_eq split: option.splits)




lemma distinct_fetchQueries:
  assumes "deduplicate cfg"
  shows "\<exists>qs. fst (fetchQueries E cfg cnt s) = Inr qs \<and> distinct qs"
proof -
  from collect_acc[of E cfg "sources cfg" s "[]"]
  obtain b s1 where c: "collect E cfg (sources cfg) [] s = (Inr b, s1)" by blast
  have "subseq (preShuffle cfg vc b) (array_from_set b)" for vc
    using subseq_preShuffle[of cfg vc b] assms by simp
  then have "distinct (preShuffle cfg vc b)" for vc
    by (rule subseq_distinct) simp
  then show ?thesis
    unfolding fetchQueries_eq[OF c]
    by (simp add: Let_def distinct_slice0 distinct_shuffleArray getLocalFallback_distinct)
qed

lemma trendingQueries_echo_trend:
  "trendingQueries echo_trend = Inr [JStr (ascii ''Solar eclipse visible tonight'')]"
  by (simp add: trendingQueries_def echo_trend_def ascii_def iterate_or_empty_def
      flatMapE_def)

lemma redditTitles_reddit_listing:
  "redditTitles E reddit_listing = Inr [JStr (ascii ''Solar eclipse visible tonight'')]"
  by (simp add: redditTitles_def reddit_listing_def ascii_def iterate_or_empty_def
      flatMapE_def title_ok_def js_gt_def js_lt_def)

lemma echo_env_collect:
  "fst (collect echo_env trends_and_reddit (sources trends_and_reddit) [] new_state)
     = Inr [JStr (ascii ''Solar eclipse visible tonight''),
            JStr (ascii ''Solar eclipse visible tonight'')]"
  by (simp add: trends_and_reddit_def constructor_def getFromSource_def cleanExpiredCache_def
      now_def new_state_def refresh_def fetchSource_def random_def randomSub_def subreddits_def
      fetchGoogleTrends_def fetchGoogleTrends_try_def fetchReddit_def fetchReddit_try_def
      fetchHttp_def parse_def echo_env_def serving_def offline_def Let_def
      next_tick_def log_msg_def build_request_def hijack_prefix_def ascii_def
      trendingQueries_echo_trend[unfolded ascii_def]
      redditTitles_reddit_listing[unfolded ascii_def]
      slice0_def trunc_def)

section \<open>The claims\<close>

subsection \<open>C1: the batch is never empty and never longer than asked\<close>

lemma collect_offline_trends:
  "fst (collect offline (only ''google-trends'') (sources (only ''google-trends'')) [] new_state)
     = Inr []"
  by (simp add: only_def constructor_def getFromSource_def cleanExpiredCache_def
      now_def new_state_def refresh_def fetchSource_def ascii_def
      fetchGoogleTrends_def fetchGoogleTrends_try_def fetchHttp_def offline_def Let_def
      next_tick_def log_msg_def build_request_def)

text \<open>
  What holds of the batch for every count in [1,200] and every behaviour of the HTTP
  client, of the parser and of the random source: \<open>fetchQueries\<close> returns normally a
  list that is not empty and not longer than the count, its elements are truthy, so the
  empty string is never among them, and when the configured sources contribute nothing it
  is drawn from the curated fallback list. The invariant of the cache is kept.
\<close>

lemma fetchQueries_batch:
  assumes "cache_ok s" and "1 \<le> cnt" and "cnt \<le> 200"
  shows "\<exists>qs s'. fetchQueries E cfg cnt s = (Inr qs, s')
           \<and> qs \<noteq> [] \<and> of_nat (length qs) \<le> cnt
           \<and> all_truthy qs \<and> JStr [] \<notin> set qs \<and> cache_ok s'
           \<and> (fst (collect E cfg (sources cfg) [] s) = Inr [] \<longrightarrow>
                  set qs \<subseteq> JStr ` set fallback)"
proof -
  from fetchQueries_ok[OF assms, of E cfg]
  obtain qs s' where r: "fetchQueries E cfg cnt s = (Inr qs, s')" "qs \<noteq> []"
    "of_nat (length qs) \<le> cnt" "all_truthy qs" "cache_ok s'"
    "fst (collect E cfg (sources cfg) [] s) = Inr [] \<longrightarrow> set qs \<subseteq> JStr ` set fallback"
    by blast
  from r(4) have "JStr [] \<notin> set qs" by (auto simp: all_truthy_def)
  with r show ?thesis by blast
qed

text \<open>
  Claim C1 says that the batch is a sequence of non-empty strings, for every behaviour of
  the HTTP client. \<open>fetchQueries\<close> is declared to return \<open>string[]\<close>, and the code
  breaks this: \<open>fetchGoogleTrends\<close> pushes \<open>search.title.query\<close> after a test of
  its truthiness only. When the trends endpoint answers
  \<^verbatim>\<open>)]}',{"default":{"trendingSearchesDays":[{"trendingSearches":[{"title":{"query":5}}]}]}}\<close>
  a new engine with the single source \<open>google-trends\<close> returns the number 5 from
  \<open>fetchQueries(1)\<close>.
\<close>

theorem fetchQueries_returns_number:
  "fst (fetchQueries trends_env (only ''google-trends'') 1 new_state) = Inr [JNum 5]"
  by (simp add: fetchQueries_def only_def constructor_def getFromSource_def
      cleanExpiredCache_def now_def new_state_def refresh_def fetchSource_def ascii_def
      fetchGoogleTrends_def fetchGoogleTrends_try_def fetchHttp_def trends_env_def serving_def offline_def parse_def
      build_request_def hijack_prefix_def trendingQueries_numeric_trend Let_def next_tick_def
      log_msg_def preShuffle_def array_from_set_def shuffle_def slice0_def trunc_def)

subsection \<open>C7: no adapter throws\<close>

text \<open>
  What holds of the adapters for every behaviour of the HTTP client and of the parser:
  each adapter returns a list and never throws. The regional adapter returns strings of
  length strictly between 2 and 100, the news scraper and the local fallback return
  non-empty strings, the other adapters truthy values.
\<close>

lemma adapters_never_throw:
  "(\<exists>qs. fst (fetchGoogleTrends E s) = Inr qs \<and> all_truthy qs)
   \<and> (\<exists>qs. fst (fetchReddit E s) = Inr qs \<and> all_truthy qs)
   \<and> (\<exists>qs. fst (fetchNews E s) = Inr qs \<and> all_truthy qs)
   \<and> (\<exists>qs. fst (fetchNewsFallback E s) = Inr qs \<and> all_strings qs)
   \<and> (\<exists>qs. fst (fetchCnNews E cfg s) = Inr qs \<and> cn_titles qs)
   \<and> (\<exists>qs. fst (extractCnNewsFromJson E body s) = Inr qs \<and> cn_titles qs)
   \<and> (\<exists>qs. fst (fetchWikipedia E s) = Inr qs \<and> all_truthy qs)
   \<and> all_strings (fst (getLocalFallback E n s))"
  using returns_fetchGoogleTrends[of E s] returns_fetchReddit[of E s] returns_fetchNews[of E s]
    returns_fetchNewsFallback[of E s] returns_fetchCnNews[of E cfg s]
    returns_extractCnNewsFromJson[of E body s] returns_fetchWikipedia[of E s]
    getLocalFallback_strings[of E n s]
  unfolding returns_def by blast

text \<open>
  Claim C7 says that every adapter returns a list of strings, whatever the HTTP client
  does. Every adapter is declared to return \<open>string[]\<close> and the regional adapter tests
  \<open>typeof value === 'string'\<close>, but the trends adapter does not: at the answer
  \<^verbatim>\<open>)]}',{"default":{"trendingSearchesDays":[{"trendingSearches":[{"title":{"query":5}}]}]}}\<close>
  \<open>fetchGoogleTrends\<close> returns the number 5.
\<close>

theorem fetchGoogleTrends_returns_number:
  "fst (fetchGoogleTrends trends_env new_state) = Inr [JNum 5]"
  by (simp add: fetchGoogleTrends_def fetchGoogleTrends_try_def fetchHttp_def trends_env_def serving_def offline_def
      parse_def build_request_def hijack_prefix_def new_state_def next_tick_def
      trendingQueries_numeric_trend Let_def)

subsection \<open>C9: the effective configuration\<close>

text \<open>
  Claim C9, as the code has it. For every argument of the constructor,
  \<open>maxQueriesPerSource\<close> is the supplied number clamped to [1,50] and
  \<open>cacheMinutes\<close> the supplied number clamped to [1,1440], except that a missing
  number and the number 0 give the defaults 10 and 30 (\<open>config?.field || default\<close>);
  both always lie in their range. \<open>sources\<close> is never empty, and is the built-in list
  when the caller gives none or an empty one. The constructor has no failing branch.
\<close>

theorem constructor_effective:
  "maxQueriesPerSource (constructor c) =
     (case Option.bind c maxQueriesPerSource_arg of
        None \<Rightarrow> 10
      | Some x \<Rightarrow> if x = 0 then 10 else clamp 1 50 x)
   \<and> cacheMinutes (constructor c) =
     (case Option.bind c cacheMinutes_arg of
        None \<Rightarrow> 30
      | Some x \<Rightarrow> if x = 0 then 30 else clamp 1 1440 x)
   \<and> 1 \<le> maxQueriesPerSource (constructor c) \<and> maxQueriesPerSource (constructor c) \<le> 50
   \<and> 1 \<le> cacheMinutes (constructor c) \<and> cacheMinutes (constructor c) \<le> 1440
   \<and> sources (constructor c) \<noteq> []
   \<and> sources (constructor c) =
     (case Option.bind c sources_arg of
        None \<Rightarrow> builtin_sources
      | Some srcs \<Rightarrow> if srcs = [] then builtin_sources else srcs)"
  by (cases c) (auto simp: constructor_def clamp_def builtin_sources_def split: option.splits)

theorem constructor_effective_witness:
  "maxQueriesPerSource (constructor (Some wide_args)) = 50
   \<and> cacheMinutes (constructor (Some wide_args)) = 1
   \<and> sources (constructor (Some wide_args)) = builtin_sources"
  using constructor_effective[of "Some wide_args"]
  by (simp add: wide_args_def clamp_def)

text \<open>
  The claim as stated fails at 0: the supplied 0 clamped to [1,50] is 1, the effective
  value is the default 10; likewise 30 and not 1 for \<open>cacheMinutes\<close>.
\<close>

theorem constructor_zero_counterexample:
  "maxQueriesPerSource (constructor (Some zero_args)) = 10 \<and> clamp 1 50 0 = 1
   \<and> cacheMinutes (constructor (Some zero_args)) = 30 \<and> clamp 1 1440 0 = 1"
  by (simp add: constructor_def zero_args_def clamp_def)

subsection \<open>C5: deduplication keeps the first occurrences\<close>

text \<open>
  Claim C5. When \<open>deduplicate\<close> is set, the list that \<open>fetchQueries\<close> hands on after
  its deduplication step is the first-occurrence-unique subsequence of the collected
  list: it has no two equal elements, the same elements as the collected list, and their
  order is that of the first occurrences. The pre-shuffle list is that list, interleaved
  when \<open>mixStrategies\<close> is set and more than one source is configured; it is a subsequence
  of it and has no two equal elements. The result of \<open>fetchQueries\<close> is computed from
  the first-occurrence list and has no two equal elements either.
\<close>

theorem deduplicate_first_occurrences:
  assumes "deduplicate cfg"
  shows "preShuffle cfg validCount allQueries =
           (if mixStrategies cfg \<and> 1 < length (sources cfg)
            then interleaveQueries cfg (first_occurrences allQueries) validCount
            else first_occurrences allQueries)
         \<and> distinct (first_occurrences allQueries)
         \<and> set (first_occurrences allQueries) = set allQueries
         \<and> subseq (first_occurrences allQueries) allQueries
         \<and> distinct (preShuffle cfg validCount allQueries)
         \<and> subseq (preShuffle cfg validCount allQueries) (first_occurrences allQueries)
         \<and> (collect E cfg (sources cfg) [] s = (Inr allQueries, s1) \<longrightarrow>
              (\<exists>qs. fst (fetchQueries E cfg cnt s) = Inr qs \<and> distinct qs
                 \<and> qs = (let vc = max 1 (min cnt 200);
                              deduplicated = first_occurrences allQueries;
                              final = slice0 (shuffleArray (shuffle_picks E (tick s1))
                                  (if mixStrategies cfg \<and> 1 < length (sources cfg)
                                   then interleaveQueries cfg deduplicated vc
                                   else deduplicated)) vc
                          in if final = [] then fst (getLocalFallback E vc (next_tick s1))
                             else final)))"
proof -
  have f: "array_from_set allQueries = first_occurrences allQueries"
    by (rule array_from_set_first_occurrences)
  have 1: "preShuffle cfg vc allQueries =
           (if mixStrategies cfg \<and> 1 < length (sources cfg)
            then interleaveQueries cfg (first_occurrences allQueries) vc
            else first_occurrences allQueries)" for vc
    using assms by (simp add: preShuffle_def Let_def f)
  have 2: "distinct (first_occurrences allQueries)"
    "set (first_occurrences allQueries) = set allQueries"
    "subseq (first_occurrences allQueries) allQueries"
    using subseq_array_from_set[of allQueries] by (simp_all add: f[symmetric])
  have 3: "subseq (preShuffle cfg validCount allQueries) (first_occurrences allQueries)"
    using subseq_preShuffle[of cfg validCount allQueries] assms by (simp add: f)
  then have 4: "distinct (preShuffle cfg validCount allQueries)"
    using 2(1) by (rule subseq_distinct)
  have 5: "collect E cfg (sources cfg) [] s = (Inr allQueries, s1) \<longrightarrow>
              (\<exists>qs. fst (fetchQueries E cfg cnt s) = Inr qs \<and> distinct qs
                 \<and> qs = (let vc = max 1 (min cnt 200);
                              deduplicated = first_occurrences allQueries;
                              final = slice0 (shuffleArray (shuffle_picks E (tick s1))
                                  (if mixStrategies cfg \<and> 1 < length (sources cfg)
                                   then interleaveQueries cfg deduplicated vc
                                   else deduplicated)) vc
                          in if final = [] then fst (getLocalFallback E vc (next_tick s1))
                             else final))"
  proof
    assume c: "collect E cfg (sources cfg) [] s = (Inr allQueries, s1)"
    from distinct_fetchQueries[OF assms, of E cnt s]
    obtain qs where q: "fst (fetchQueries E cfg cnt s) = Inr qs" "distinct qs" by blast
    have "fst (fetchQueries E cfg cnt s) = Inr (let vc = max 1 (min cnt 200);
                              deduplicated = first_occurrences allQueries;
                              final = slice0 (shuffleArray (shuffle_picks E (tick s1))
                                  (if mixStrategies cfg \<and> 1 < length (sources cfg)
                                   then interleaveQueries cfg deduplicated vc
                                   else deduplicated)) vc
                          in if final = [] then fst (getLocalFallback E vc (next_tick s1))
                             else final)"
      unfolding fetchQueries_eq[OF c] Let_def 1 by simp
    with q(1) have "qs = (let vc = max 1 (min cnt 200);
                              deduplicated = first_occurrences allQueries;
                              final = slice0 (shuffleArray (shuffle_picks E (tick s1))
                                  (if mixStrategies cfg \<and> 1 < length (sources cfg)
                                   then interleaveQueries cfg deduplicated vc
                                   else deduplicated)) vc
                          in if final = [] then fst (getLocalFallback E vc (next_tick s1))
                             else final)"
      by simp
    with q show "\<exists>qs. fst (fetchQueries E cfg cnt s) = Inr qs \<and> distinct qs
                 \<and> qs = (let vc = max 1 (min cnt 200);
                              deduplicated = first_occurrences allQueries;
                              final = slice0 (shuffleArray (shuffle_picks E (tick s1))
                                  (if mixStrategies cfg \<and> 1 < length (sources cfg)
                                   then interleaveQueries cfg deduplicated vc
                                   else deduplicated)) vc
                          in if final = [] then fst (getLocalFallback E vc (next_tick s1))
                             else final)"
      by blast
  qed
  from 1[of validCount] 2 3 4 5 show ?thesis by blast
qed

text \<open>
  The trends endpoint and the social feed answer with the same text: the collected list
  holds it twice, the list handed on and the result once.
\<close>

theorem deduplicate_first_occurrences_witness:
  "preShuffle trends_and_reddit 5
      [JStr (ascii ''Solar eclipse visible tonight''), JStr (ascii ''Solar eclipse visible tonight'')]
     = [JStr (ascii ''Solar eclipse visible tonight'')]
   \<and> fst (fetchQueries echo_env trends_and_reddit 5 new_state)
     = Inr [JStr (ascii ''Solar eclipse visible tonight'')]
   \<and> first_occurrences dup_queries = [JStr (ascii ''b''), JStr (ascii ''a''), JStr (ascii ''c'')]"
proof -
  let ?t = "JStr (ascii ''Solar eclipse visible tonight'')"
  have d: "deduplicate trends_and_reddit" "mixStrategies trends_and_reddit"
    "length (sources trends_and_reddit) = 2"
    by (simp_all add: trends_and_reddit_def constructor_def)
  obtain s1 where c: "collect echo_env trends_and_reddit (sources trends_and_reddit) [] new_state
     = (Inr [?t, ?t], s1)"
    using echo_env_collect
    by (cases "collect echo_env trends_and_reddit (sources trends_and_reddit) [] new_state") simp
  have f: "first_occurrences [?t, ?t] = [?t]"
    by (simp add: array_from_set_first_occurrences[symmetric] array_from_set_def)
  have i: "interleaveQueries trends_and_reddit [?t] vc = slice0 [?t] vc" if "1 \<le> vc" for vc
    by (rule interleaveQueries_eq_slice0)
      (use that in \<open>simp_all add: trends_and_reddit_def constructor_def all_truthy_def ascii_def\<close>)
  have p: "shuffle_picks echo_env t = []" for t
    by (simp add: echo_env_def serving_def offline_def)
  note th = deduplicate_first_occurrences[OF d(1), of 5 "[?t, ?t]" echo_env new_state s1 5]
  from th have 1: "preShuffle trends_and_reddit 5 [?t, ?t] = [?t]"
    by (simp add: d f i slice0_def trunc_def)
  from th c have 2: "fst (fetchQueries echo_env trends_and_reddit 5 new_state) = Inr [?t]"
    by (simp add: d f i p shuffleArray_no_picks slice0_def trunc_def Let_def)
  have 3: "first_occurrences dup_queries = [JStr (ascii ''b''), JStr (ascii ''a''), JStr (ascii ''c'')]"
    using array_from_set_dup_queries by (simp add: array_from_set_first_occurrences)
  from 1 2 3 show ?thesis by blast
qed

subsection \<open>C4: the regional extraction on a nested payload\<close>

text \<open>
  Claim C4, as the code has it. When \<open>JSON.parse\<close> gives the payload in which
  \<open>data.cards[0].content[0].items[0].title\<close> is the string \<open>t\<close>, the extraction
  unwraps the containers and yields exactly \<open>[t]\<close> if the length of \<open>t\<close> is strictly
  between 2 and 100 code units, and nothing otherwise. Whatever the payload, every
  extracted string has a length strictly between 2 and 100 (from 3 to 99).
\<close>

theorem cn_nested_title:
  assumes "JSON_parse E (tick s) body = Some (nested_payload t)"
  shows "fst (extractCnNewsFromJson E body s)
           = Inr (if 2 < length t \<and> length t < 100 then [JStr t] else [])
         \<and> (\<exists>qs. fst (extractCnNewsFromJson E' body' s') = Inr qs \<and> cn_titles qs)"
proof -
  have "fst (extractCnNewsFromJson E body s)
           = Inr (if 2 < length t \<and> length t < 100 then [JStr t] else [])"
    using assms by (simp add: extractCnNewsFromJson_def parse_def cnExtract_nested_payload)
  moreover have "\<exists>qs. fst (extractCnNewsFromJson E' body' s') = Inr qs \<and> cn_titles qs"
    using returns_extractCnNewsFromJson[of E' body' s'] by (simp add: returns_def)
  ultimately show ?thesis by blast
qed

text \<open>The title of three code units U+793A U+4F8B U+8BCD is extracted.\<close>

theorem cn_nested_title_witness:
  "fst (extractCnNewsFromJson (cn_env [31034, 20363, 35789]) (ascii ''nested'') new_state)
     = Inr [JStr [31034, 20363, 35789]]"
  using cn_nested_title[of "cn_env [31034, 20363, 35789]" new_state "ascii ''nested''"
      "[31034, 20363, 35789]"]
  by (simp add: cn_env_def serving_def offline_def)

text \<open>
  The claim as stated fails at its own example: the title of the two code units
  U+793A U+4F8B has length 2, which \<open>value.length > 2\<close> rejects, and the extraction
  yields the empty list.
\<close>

theorem cn_two_unit_title_counterexample:
  "fst (extractCnNewsFromJson (cn_env [31034, 20363]) (ascii ''nested'') new_state) = Inr []"
  by (simp add: extractCnNewsFromJson_def parse_def cn_env_def serving_def offline_def
      cnExtract_nested_payload)

subsection \<open>C10: a source that is not recognised\<close>



subsection \<open>C3: the interleaving step\<close>


subsection \<open>C8: the local fallback list\<close>

text \<open>
  Claim C8, as the code has it. For every count in [1,200]: when the configured sources
  contribute no query, \<open>fetchQueries\<close> returns min(count, 30) strings of the curated
  list, pairwise distinct (the list has 30 entries, so exactly count strings up to 30).
  For the configuration with the single source \<open>local-fallback\<close> a new engine
  returns min(count, 10) pairwise distinct strings of the curated list (the default
  \<open>maxQueriesPerSource\<close> is 10): exactly 5 for the count 5.
\<close>

theorem fallback_sized:
  assumes "1 \<le> cnt" and "cnt \<le> 200"
  shows "(fst (collect E cfg (sources cfg) [] s) = Inr [] \<longrightarrow>
            (\<exists>qs. fst (fetchQueries E cfg cnt s) = Inr qs
               \<and> length qs = min (nat \<lfloor>cnt\<rfloor>) 30
               \<and> set qs \<subseteq> JStr ` set fallback \<and> distinct qs))
         \<and> (\<exists>qs. fst (fetchQueries E (constructor (Some fallback_only_args)) cnt new_state) = Inr qs
               \<and> length qs = min (nat \<lfloor>cnt\<rfloor>) 10
               \<and> set qs \<subseteq> JStr ` set fallback \<and> distinct qs)"
proof -
  from fetchQueries_fallback_only[OF assms, of E]
  obtain p where f: "fst (fetchQueries E (constructor (Some fallback_only_args)) cnt new_state)
           = Inr (take (nat \<lfloor>cnt\<rfloor>) (shuffleArray p
                    (take 10 (shuffleArray (shuffle_picks E 1) (map JStr fallback)))))"
    by blast
  let ?qs = "take (nat \<lfloor>cnt\<rfloor>) (shuffleArray p
                    (take 10 (shuffleArray (shuffle_picks E 1) (map JStr fallback))))"
  have 1: "length ?qs = min (nat \<lfloor>cnt\<rfloor>) 10"
    by (simp add: length_shuffleArray length_fallback min.commute)
  have "set ?qs \<subseteq> set (shuffleArray (shuffle_picks E 1) (map JStr fallback))"
    by (meson dual_order.trans set_take_subset set_shuffleArray[THEN equalityD1])
  then have 2: "set ?qs \<subseteq> JStr ` set fallback" by (simp add: set_shuffleArray)
  have 3: "distinct ?qs"
    by (simp add: distinct_shuffleArray distinct_JStr_fallback)
  from f 1 2 3 fetchQueries_fallback_props[OF _ assms, of E cfg s] show ?thesis by blast
qed

theorem fallback_sized_witness:
  "(\<exists>qs. fst (fetchQueries offline (only ''google-trends'') 5 new_state) = Inr qs
      \<and> length qs = 5 \<and> set qs \<subseteq> JStr ` set fallback \<and> distinct qs)
   \<and> (\<exists>qs. fst (fetchQueries offline (constructor (Some fallback_only_args)) 5 new_state) = Inr qs
      \<and> length qs = 5 \<and> set qs \<subseteq> JStr ` set fallback \<and> distinct qs)"
proof -
  have f: "min (nat \<lfloor>5::rat\<rfloor>) 30 = 5" "min (nat \<lfloor>5::rat\<rfloor>) 10 = 5" by simp_all
  have "(1::rat) \<le> 5" "(5::rat) \<le> 200" by simp_all
  from fallback_sized[OF this, of offline "only ''google-trends''" new_state] collect_offline_trends
  show ?thesis unfolding f by blast
qed

text \<open>
  The claim as stated fails for a count above 30: with every source failing, the count
  31 gives the 30 strings of the curated list.
\<close>

theorem fallback_thirty_counterexample:
  "map_sum id length (fst (fetchQueries offline (only ''google-trends'') 31 new_state)) = Inr 30"
proof -
  have f: "min (nat \<lfloor>31::rat\<rfloor>) 30 = 30" by simp
  have "(1::rat) \<le> 31" "(31::rat) \<le> 200" by simp_all
  from fetchQueries_fallback_props[OF collect_offline_trends this]
  show ?thesis unfolding f by auto
qed

subsection \<open>C6: the cache serves only fresh entries\<close>

text \<open>
  Claim C6, as the code has it. \<open>cleanExpiredCache\<close>, which opens every lookup, leaves
  only entries whose expiry lies after the time it read. A lookup returns the cached list,
  and issues no request, exactly when the entry is there and both readings of the clock
  (the one of the eviction and the one of the test) are strictly before its expiry;
  otherwise it fetches anew, and for a remote source that issues at least one request.
  After a fetch that returned a non-empty list, a lookup of the same source whose readings
  of the clock lie strictly before the expiry stored with the entry (\<open>Date.now()\<close> of
  the fetch plus \<open>cacheMinutes * 60000\<close>, as the runtime computes it) returns that
  list and issues no request, so that the two lookups issue the requests of the one fetch.
  A fetch, and so every lookup, issues at most \<open>max_requests\<close> requests: one for the
  trends, social-feed and encyclopedia adapters, two for the news adapter, three for the
  regional adapter, none for the local fallback.
\<close>

theorem cache_freshness:
  "(cache (cleanExpiredCache E s) k = Some e' \<longrightarrow> of_int (Date_now E (tick s)) < expires e')
   \<and> (cache s src = Some e \<and> of_int (Date_now E (tick s)) < expires e
        \<and> of_int (Date_now E (Suc (tick s))) < expires e \<longrightarrow>
        fst (getFromSource E cfg src s) = Inr (queries e)
        \<and> requests (snd (getFromSource E cfg src s)) = requests s)
   \<and> (cache s src = Some e
        \<and> (expires e \<le> of_int (Date_now E (tick s))
            \<or> expires e \<le> of_int (Date_now E (Suc (tick s)))) \<longrightarrow>
        (\<exists>s0. getFromSource E cfg src s = refresh E cfg src s0 \<and> requests s0 = requests s)
        \<and> (src \<in> set remote_sources \<longrightarrow>
              length (requests s) < length (requests (snd (getFromSource E cfg src s)))))
   \<and> (refresh E cfg src s0 = (Inr qs, s1) \<and> qs \<noteq> [] \<and> cache s2 src = cache s1 src
        \<and> of_int (Date_now E (tick s2))
              < num_add E (of_int (Date_now E (tick s1 - 1))) (num_mul E (cacheMinutes cfg) 60000)
        \<and> of_int (Date_now E (Suc (tick s2)))
              < num_add E (of_int (Date_now E (tick s1 - 1))) (num_mul E (cacheMinutes cfg) 60000) \<longrightarrow>
        length (requests s1) \<le> length (requests s0) + max_requests src
        \<and> fst (getFromSource E cfg src s2) = Inr qs
        \<and> requests (snd (getFromSource E cfg src s2)) = requests s2)
   \<and> length (requests (snd (getFromSource E cfg src s)))
         \<le> length (requests s) + max_requests src"
proof (intro conjI impI)
  assume "cache (cleanExpiredCache E s) k = Some e'"
  then show "of_int (Date_now E (tick s)) < expires e'" by (rule evicted)
next
  assume a: "cache s src = Some e \<and> of_int (Date_now E (tick s)) < expires e
        \<and> of_int (Date_now E (Suc (tick s))) < expires e"
  then have g: "getFromSource E cfg src s = (Inr (queries e), next_tick (cleanExpiredCache E s))"
    by (intro getFromSource_hit) simp_all
  show "fst (getFromSource E cfg src s) = Inr (queries e)" by (simp add: g)
  show "requests (snd (getFromSource E cfg src s)) = requests s"
    by (simp add: g next_tick_def)
next
  assume a: "cache s src = Some e
        \<and> (expires e \<le> of_int (Date_now E (tick s))
            \<or> expires e \<le> of_int (Date_now E (Suc (tick s))))"
  then have a1: "cache s src = Some e"
    and a2: "expires e \<le> of_int (Date_now E (tick s))
            \<or> expires e \<le> of_int (Date_now E (Suc (tick s)))"
    by blast+
  from a1 a2
  show "\<exists>s0. getFromSource E cfg src s = refresh E cfg src s0 \<and> requests s0 = requests s"
    by (rule getFromSource_stale)
  assume "src \<in> set remote_sources"
  with a1 a2 show "length (requests s) < length (requests (snd (getFromSource E cfg src s)))"
    by (rule stale_refetches)
next
  assume a: "refresh E cfg src s0 = (Inr qs, s1) \<and> qs \<noteq> [] \<and> cache s2 src = cache s1 src
        \<and> of_int (Date_now E (tick s2))
              < num_add E (of_int (Date_now E (tick s1 - 1))) (num_mul E (cacheMinutes cfg) 60000)
        \<and> of_int (Date_now E (Suc (tick s2)))
              < num_add E (of_int (Date_now E (tick s1 - 1))) (num_mul E (cacheMinutes cfg) 60000)"
  let ?e = "\<lparr>queries = qs,
           expires = num_add E (of_int (Date_now E (tick s1 - 1))) (num_mul E (cacheMinutes cfg) 60000)\<rparr>"
  from a have c: "cache s2 src = Some ?e" using refresh_caches[of E cfg src s0 qs s1] by simp
  from a have g: "getFromSource E cfg src s2 = (Inr (queries ?e), next_tick (cleanExpiredCache E s2))"
    by (intro getFromSource_hit[OF c]) simp_all
  from a refresh_issues[of E cfg src s0]
  show "length (requests s1) \<le> length (requests s0) + max_requests src" by simp
  show "fst (getFromSource E cfg src s2) = Inr qs" by (simp add: g)
  show "requests (snd (getFromSource E cfg src s2)) = requests s2"
    by (simp add: g next_tick_def)
next
  show "length (requests (snd (getFromSource E cfg src s)))
         \<le> length (requests s) + max_requests src"
    by (rule getFromSource_issues)
qed

theorem cache_freshness_witness:
  "fst (getFromSource offline (only ''google-trends'') (ascii ''google-trends'') (cached_state 100))
     = Inr [JStr (ascii ''solar eclipse'')]
   \<and> requests (snd (getFromSource offline (only ''google-trends'') (ascii ''google-trends'')
        (cached_state 100))) = []
   \<and> 0 < length (requests (snd (getFromSource offline (only ''google-trends'')
        (ascii ''google-trends'') (cached_state 0))))
   \<and> fst (getFromSource late_answer_env (only ''cn-news'') (ascii ''cn-news'')
          (snd (getFromSource late_answer_env (only ''cn-news'') (ascii ''cn-news'') new_state)))
     = Inr [JStr [31034, 20363, 35789]]
   \<and> requests (snd (getFromSource late_answer_env (only ''cn-news'') (ascii ''cn-news'')
          (snd (getFromSource late_answer_env (only ''cn-news'') (ascii ''cn-news'') new_state))))
     = requests (snd (getFromSource late_answer_env (only ''cn-news'') (ascii ''cn-news'')
          new_state))"
proof -
  let ?e = "\<lambda>x. \<lparr>queries = [JStr (ascii ''solar eclipse'')], expires = x\<rparr>"
  note hit = cache_freshness[of offline "cached_state 100" _ _ "ascii ''google-trends''" "?e 100"
      "only ''google-trends''", THEN conjunct2, THEN conjunct1]
  note stale = cache_freshness[of offline "cached_state 0" _ _ "ascii ''google-trends''" "?e 0"
      "only ''google-trends''", THEN conjunct2, THEN conjunct2, THEN conjunct1]
  have 1: "fst (getFromSource offline (only ''google-trends'') (ascii ''google-trends'')
             (cached_state 100)) = Inr [JStr (ascii ''solar eclipse'')]
     \<and> requests (snd (getFromSource offline (only ''google-trends'') (ascii ''google-trends'')
        (cached_state 100))) = []"
    using hit by (simp add: cached_state_simps Date_now_offline)
  have 2: "0 < length (requests (snd (getFromSource offline (only ''google-trends'')
        (ascii ''google-trends'') (cached_state 0))))"
    using stale google_remote by (simp add: cached_state_simps Date_now_offline)
  note twice = cache_freshness[of late_answer_env _ _ _ "ascii ''cn-news''" _ "only ''cn-news''"
      "cleanExpiredCache late_answer_env new_state" "[JStr [31034, 20363, 35789]]"
      "snd (getFromSource late_answer_env (only ''cn-news'') (ascii ''cn-news'') new_state)"
      "snd (getFromSource late_answer_env (only ''cn-news'') (ascii ''cn-news'') new_state)",
      THEN conjunct2, THEN conjunct2, THEN conjunct2, THEN conjunct1]
  have 3: "fst (getFromSource late_answer_env (only ''cn-news'') (ascii ''cn-news'')
          (snd (getFromSource late_answer_env (only ''cn-news'') (ascii ''cn-news'') new_state)))
     = Inr [JStr [31034, 20363, 35789]]
   \<and> requests (snd (getFromSource late_answer_env (only ''cn-news'') (ascii ''cn-news'')
          (snd (getFromSource late_answer_env (only ''cn-news'') (ascii ''cn-news'') new_state))))
     = requests (snd (getFromSource late_answer_env (only ''cn-news'') (ascii ''cn-news'')
          new_state))"
    using twice first_cn_refresh
    by (simp add: first_cn_lookup(3) Date_now_late cacheMinutes_only arith_late)
  from 1 2 3 show ?thesis by blast
qed

text \<open>
  The claim as stated fails where it says "at most one request": the regional adapter
  asks its second endpoint when the first has no items, so that two lookups within the
  window issue two requests (both by the first lookup).
\<close>

theorem two_requests_counterexample:
  "length (requests (snd (getFromSource late_answer_env (only ''cn-news'') (ascii ''cn-news'')
          (snd (getFromSource late_answer_env (only ''cn-news'') (ascii ''cn-news'') new_state)))))
     = 2"
  using second_cn_lookup first_cn_lookup(2) by simp

subsection \<open>C2: one failing source does not abort the batch\<close>

text \<open>
  Claim C2. Let \<open>src\<close> be one of the configured sources, let the sources before it have
  contributed \<open>before\<close>, and let the fetch of \<open>src\<close> throw (a transport or a parse
  error in the \<open>try\<close> block of its adapter, at the state in which the lookup fetches).
  Then the lookup of \<open>src\<close> returns the empty list without throwing and caches nothing,
  the loop goes on with the sources after it, and the collected list is the concatenation
  of what the other sources contribute, in the configured order. \<open>fetchQueries\<close>
  returns the batch made of that list (deduplicated, interleaved, shuffled and cut as
  configured, or the local fallback when it is empty); it never returns the empty list.
\<close>

theorem partial_failure_isolated:
  assumes "sources cfg = pre @ src # post"
    and "contributions E cfg pre s = (before, s1)"
    and "cache (cleanExpiredCache E s1) src = None"
    and "fetch_throws E cfg src (cleanExpiredCache E s1)"
  shows "\<exists>s2 after s3.
           getFromSource E cfg src s1 = (Inr [], s2)
           \<and> cache s2 = cache (cleanExpiredCache E s1)
           \<and> contributions E cfg post s2 = (after, s3)
           \<and> contributions E cfg (sources cfg) s = (before @ [] # after, s3)
           \<and> collect E cfg (sources cfg) [] s = (Inr (concat before @ concat after), s3)
           \<and> fst (fetchQueries E cfg cnt s) =
               Inr (let validCount = max 1 (min cnt 200);
                        final = slice0 (shuffleArray (shuffle_picks E (tick s3))
                                  (preShuffle cfg validCount (concat before @ concat after)))
                                  validCount
                    in if final = [] then fst (getLocalFallback E validCount (next_tick s3))
                       else final)
           \<and> fst (fetchQueries E cfg cnt s) \<noteq> Inr []"
proof -
  from getFromSource_throws[OF assms(3,4)]
  obtain s2 where g: "getFromSource E cfg src s1 = (Inr [], s2)"
    and c: "cache s2 = cache (cleanExpiredCache E s1)" by blast
  obtain after s3 where p: "contributions E cfg post s2 = (after, s3)"
    by (cases "contributions E cfg post s2")
  have k: "contributions E cfg (sources cfg) s = (before @ [] # after, s3)"
    unfolding assms(1) contributions_append assms(2) prod.case contributions_step[OF g] p
    by simp
  have col: "collect E cfg (sources cfg) [] s = (Inr (concat before @ concat after), s3)"
    unfolding collect_contributions k by simp
  have f: "fst (fetchQueries E cfg cnt s) =
               Inr (let validCount = max 1 (min cnt 200);
                        final = slice0 (shuffleArray (shuffle_picks E (tick s3))
                                  (preShuffle cfg validCount (concat before @ concat after)))
                                  validCount
                    in if final = [] then fst (getLocalFallback E validCount (next_tick s3))
                       else final)"
    unfolding fetchQueries_eq[OF col] by (simp add: Let_def)
  from g c p k col f fetchQueries_nonempty[of E cfg cnt s] show ?thesis by blast
qed

text \<open>
  The trends endpoint answers with a page that \<open>JSON.parse\<close> rejects, the social feed
  with a listing: the trends source contributes nothing and the batch is the post of the
  social feed.
\<close>

theorem partial_failure_isolated_witness:
  "(\<exists>s2. getFromSource mixed_env trends_and_reddit (ascii ''google-trends'') new_state
            = (Inr [], s2))
   \<and> fst (contributions mixed_env trends_and_reddit (sources trends_and_reddit) new_state)
       = [[], [JStr (ascii ''Solar eclipse visible tonight'')]]
   \<and> fst (fetchQueries mixed_env trends_and_reddit 5 new_state)
       = Inr [JStr (ascii ''Solar eclipse visible tonight'')]"
proof -
  have c: "contributions mixed_env trends_and_reddit [] new_state = ([], new_state)" by simp
  have n: "cache (cleanExpiredCache mixed_env new_state) (ascii ''google-trends'') = None"
    by (simp add: cache_cleanExpiredCache new_state_def)
  from partial_failure_isolated[OF sources_trends_and_reddit c n mixed_env_throws, of 5]
  obtain s2 after s3 where
    g: "getFromSource mixed_env trends_and_reddit (ascii ''google-trends'') new_state = (Inr [], s2)"
    and k: "contributions mixed_env trends_and_reddit (sources trends_and_reddit) new_state
              = ([] @ [] # after, s3)"
    and col: "collect mixed_env trends_and_reddit (sources trends_and_reddit) [] new_state
              = (Inr (concat [] @ concat after), s3)"
    and a: "contributions mixed_env trends_and_reddit [ascii ''reddit''] s2 = (after, s3)"
    by blast
  from a have "length after = 1"
    by (cases "getFromSource mixed_env trends_and_reddit (ascii ''reddit'') s2";
        cases "fst (getFromSource mixed_env trends_and_reddit (ascii ''reddit'') s2)")
      (auto split: prod.splits)
  then obtain x where x: "after = [x]" by (cases after) auto
  from col mixed_env_collect have "x = [JStr (ascii ''Solar eclipse visible tonight'')]"
    by (simp add: x)
  with g k x mixed_env_fetchQueries show ?thesis by simp
qed


end
